theory Spec2Isabelle
  imports Complex_Main
begin

section \<open>Platform primitives\<close>

text \<open>
  JavaScript numbers are modelled as mathematical integers (\<^typ>\<open>int\<close>): pixel offsets,
  page numbers and row counts are integral in every use the library documents.  Fractions,
  \<open>NaN\<close> and the infinities that a division by zero produces are outside the model, so
  every statement about a quotient carries a non-zero (in fact positive) divisor.

  \<open>Math.floor(a / b)\<close> is then \<^term>\<open>a div b\<close> (Isabelle's \<open>div\<close> on \<^typ>\<open>int\<close>
  rounds towards minus infinity) and \<open>Math.ceil(a / b)\<close> is \<open>Math_ceil_div a b\<close>.
\<close>

definition Math_floor_div :: "int \<Rightarrow> int \<Rightarrow> int" where
  "Math_floor_div a b = a div b"

definition Math_ceil_div :: "int \<Rightarrow> int \<Rightarrow> int" where
  "Math_ceil_div a b = - ((- a) div b)"

text \<open>
  \<open>Array.prototype.slice(start, end)\<close> with both arguments given: a negative index counts
  from the end of the array, an index past either end is clamped, and an empty range
  (\<open>end \<le> start\<close>) yields the empty array.  It never throws.
\<close>

definition Array_slice :: "'a list \<Rightarrow> int \<Rightarrow> int \<Rightarrow> 'a list" where
  "Array_slice xs start stop =
     (let len = int (length xs);
          k = (if start < 0 then max (len + start) 0 else min start len);
          final = (if stop < 0 then max (len + stop) 0 else min stop len);
          count = max (final - k) 0
      in take (nat count) (drop (nat k) xs))"

text \<open>\<open>String(n)\<close> for an integral number: its decimal numeral, with a leading minus sign.\<close>

definition digit_char :: "nat \<Rightarrow> char" where
  "digit_char d = ''0123456789'' ! d"

function decimal :: "nat \<Rightarrow> string" where
  "decimal n = (if n < 10 then [digit_char n] else decimal (n div 10) @ [digit_char (n mod 10)])"
  by pat_completeness auto
termination
  by (relation "measure id") auto

declare decimal.simps [simp del]

definition Number_toString :: "int \<Rightarrow> string" where
  "Number_toString i = (if i < 0 then CHR ''-'' # decimal (nat (- i)) else decimal (nat i))"


section \<open>Cell values and rows\<close>

text \<open>
  The values a row or a cell can be: \<open>undefined\<close>, \<open>null\<close>, a string, a number, a boolean,
  a \<open>Date\<close> (its time stamp) or a plain object (its own properties in order).  Property
  lookup sees own properties only, so a column id is taken not to name a member that
  objects inherit.
\<close>

datatype jsval =
    JUndefined
  | JNull
  | JString string
  | JNumber int
  | JBoolean bool
  | JDate int
  | JObject "(string \<times> jsval) list"

text \<open>\<open>type SortDirection = 'asc' | 'desc' | null\<close> is \<open>SortDir option\<close>.\<close>

datatype SortDir = Asc | Desc

text \<open>
  What the host provides and the model cannot compute: the collation behind
  \<open>String.prototype.localeCompare\<close> and the text \<open>String(date)\<close> prints.
\<close>

record platform =
  localeCompare :: "string \<Rightarrow> string \<Rightarrow> int"
  dateToString :: "int \<Rightarrow> string"

text \<open>\<open>v == null\<close>.\<close>

definition isNullish :: "jsval \<Rightarrow> bool" where
  "isNullish v = (v = JUndefined \<or> v = JNull)"

text \<open>\<open>typeof v === 'object' && v !== null\<close>.\<close>

definition isObject :: "jsval \<Rightarrow> bool" where
  "isObject v = (case v of JDate t \<Rightarrow> True | JObject kvs \<Rightarrow> True | _ \<Rightarrow> False)"

text \<open>\<open>(v as Record<string, unknown>)[key]\<close> for a \<open>v\<close> that passed \<open>isObject\<close>.\<close>

definition getProperty :: "jsval \<Rightarrow> string \<Rightarrow> jsval" where
  "getProperty v key =
     (case v of
        JObject kvs \<Rightarrow> (case map_of kvs key of Some x \<Rightarrow> x | None \<Rightarrow> JUndefined)
      | _ \<Rightarrow> JUndefined)"

text \<open>\<open>toLowerCase\<close> on the letters \<open>A\<close> to \<open>Z\<close>; other characters stay as they are.\<close>

definition lower_char :: "char \<Rightarrow> char" where
  "lower_char c =
     (let n = (of_char c :: nat) in if 65 \<le> n \<and> n \<le> 90 then char_of (n + 32) else c)"

definition toLowerCase :: "string \<Rightarrow> string" where
  "toLowerCase s = map lower_char s"

text \<open>\<open>String(v)\<close>.\<close>

fun String_of :: "platform \<Rightarrow> jsval \<Rightarrow> string" where
  "String_of P JUndefined = ''undefined''"
| "String_of P JNull = ''null''"
| "String_of P (JString s) = s"
| "String_of P (JNumber n) = Number_toString n"
| "String_of P (JBoolean b) = (if b then ''true'' else ''false'')"
| "String_of P (JDate t) = dateToString P t"
| "String_of P (JObject kvs) = ''[object Object]''"

text \<open>\<open>s.includes(t)\<close>: \<open>t\<close> occurs in \<open>s\<close> as a contiguous piece.\<close>

fun startsWith :: "string \<Rightarrow> string \<Rightarrow> bool" where
  "startsWith s [] = True"
| "startsWith [] (c # t) = False"
| "startsWith (d # s) (c # t) = (d = c \<and> startsWith s t)"

fun String_includes :: "string \<Rightarrow> string \<Rightarrow> bool" where
  "String_includes [] t = (t = [])"
| "String_includes (d # s) t = (startsWith (d # s) t \<or> String_includes s t)"

text \<open>
  \<open>Array.prototype.sort(compareFn)\<close>.  The sort is stable; \<open>undefined\<close> elements go to the
  end without the comparator being asked (\<open>SortCompare\<close>).  The order is modelled by a
  stable insertion sort.  That is the order every conforming engine produces when the
  comparator is consistent on the elements; for an inconsistent comparator the language
  leaves the order to the engine, so a statement about the order of the result carries
  \<open>consistent_on\<close> as a condition.
\<close>

definition SortCompare :: "(jsval \<Rightarrow> jsval \<Rightarrow> int) \<Rightarrow> jsval \<Rightarrow> jsval \<Rightarrow> int" where
  "SortCompare cmp x y =
     (if x = JUndefined \<and> y = JUndefined then 0
      else if x = JUndefined then 1
      else if y = JUndefined then - 1
      else cmp x y)"

fun insert_sorted :: "('a \<Rightarrow> 'a \<Rightarrow> int) \<Rightarrow> 'a \<Rightarrow> 'a list \<Rightarrow> 'a list" where
  "insert_sorted cmp x [] = [x]"
| "insert_sorted cmp x (y # ys) =
     (if cmp x y \<le> 0 then x # y # ys else y # insert_sorted cmp x ys)"

fun insertion_sort :: "('a \<Rightarrow> 'a \<Rightarrow> int) \<Rightarrow> 'a list \<Rightarrow> 'a list" where
  "insertion_sort cmp [] = []"
| "insertion_sort cmp (x # xs) = insert_sorted cmp x (insertion_sort cmp xs)"

definition Array_sort :: "(jsval \<Rightarrow> jsval \<Rightarrow> int) \<Rightarrow> jsval list \<Rightarrow> jsval list" where
  "Array_sort cmp xs = insertion_sort (SortCompare cmp) xs"

text \<open>
  A comparator is consistent on the elements of \<open>xs\<close>: every element equals itself, the
  sign of \<open>cmp a b\<close> is the opposite of the sign of \<open>cmp b a\<close>, and "not after" is
  transitive.
\<close>

definition consistent_on :: "('a \<Rightarrow> 'a \<Rightarrow> int) \<Rightarrow> 'a list \<Rightarrow> bool" where
  "consistent_on cmp xs =
     list_all (\<lambda>a. cmp a a = 0 \<and>
       list_all (\<lambda>b. ((cmp a b < 0) = (0 < cmp b a)) \<and>
         list_all (\<lambda>c. cmp a b \<le> 0 \<and> cmp b c \<le> 0 \<longrightarrow> cmp a c \<le> 0) xs) xs) xs"

text \<open>\<open>Array.prototype.find((element, index) => \<dots>)\<close>: the first element that passes.\<close>

fun find_from :: "nat \<Rightarrow> ('a \<Rightarrow> nat \<Rightarrow> bool) \<Rightarrow> 'a list \<Rightarrow> 'a option" where
  "find_from i p [] = None"
| "find_from i p (x # xs) = (if p x i then Some x else find_from (Suc i) p xs)"

definition Array_find :: "('a \<Rightarrow> nat \<Rightarrow> bool) \<Rightarrow> 'a list \<Rightarrow> 'a option" where
  "Array_find p xs = find_from 0 p xs"


section \<open>Utility functions (core/utils)\<close>

text \<open>
  \<open>interface Column\<close>, without the presentation fields \<open>align\<close>, \<open>width\<close> and \<open>cell\<close>.
  An optional field is an \<open>option\<close>.
\<close>

record Column =
  idC :: string
  header :: string
  accessor :: "(jsval \<Rightarrow> jsval) option"
  sortable :: "bool option"
  sortFn :: "(jsval \<Rightarrow> jsval \<Rightarrow> SortDir option \<Rightarrow> int) option"
  filterable :: "bool option"
  hidden :: "bool option"

definition getCellValue :: "jsval \<Rightarrow> Column \<Rightarrow> jsval" where
  "getCellValue row column =
     (case accessor column of
        Some f \<Rightarrow> f row
      | None \<Rightarrow>
          if isObject row then
            (let value = getProperty row (idC column)
             in if value \<noteq> JUndefined then value else JNull)
          else JNull)"

definition Number_of_bool :: "bool \<Rightarrow> int" where
  "Number_of_bool b = (if b then 1 else 0)"

definition compareValues :: "platform \<Rightarrow> jsval \<Rightarrow> jsval \<Rightarrow> SortDir option \<Rightarrow> int" where
  "compareValues P a b direction' =
     (if isNullish a \<and> isNullish b then 0
      else if isNullish a then 1
      else if isNullish b then - 1
      else
        (let fallback =
               (let aStr = toLowerCase (String_of P a);
                    bStr = toLowerCase (String_of P b);
                    result = localeCompare P aStr bStr
                in if direction' = Some Asc then result else - result)
         in case a of
              JString x \<Rightarrow>
                (case b of
                   JString y \<Rightarrow>
                     (let result = localeCompare P (toLowerCase x) (toLowerCase y)
                      in if direction' = Some Asc then result else - result)
                 | _ \<Rightarrow> fallback)
            | JNumber x \<Rightarrow>
                (case b of
                   JNumber y \<Rightarrow> (if direction' = Some Asc then x - y else y - x)
                 | _ \<Rightarrow> fallback)
            | JDate x \<Rightarrow>
                (case b of
                   JDate y \<Rightarrow>
                     (let diff = x - y in if direction' = Some Asc then diff else - diff)
                 | _ \<Rightarrow> fallback)
            | JBoolean x \<Rightarrow>
                (case b of
                   JBoolean y \<Rightarrow>
                     (let result = Number_of_bool x - Number_of_bool y
                      in if direction' = Some Asc then result else - result)
                 | _ \<Rightarrow> fallback)
            | _ \<Rightarrow> fallback))"

text \<open>The \<open>for\<close> loop of \<open>defaultFilterFn\<close> over the columns.\<close>

fun defaultFilterFn_loop :: "platform \<Rightarrow> jsval \<Rightarrow> string \<Rightarrow> Column list \<Rightarrow> bool" where
  "defaultFilterFn_loop P row lowerSearch [] = False"
| "defaultFilterFn_loop P row lowerSearch (column # rest) =
     (if filterable column = Some False then defaultFilterFn_loop P row lowerSearch rest
      else
        (let value = getCellValue row column
         in if isNullish value then defaultFilterFn_loop P row lowerSearch rest
            else if String_includes (toLowerCase (String_of P value)) lowerSearch then True
            else defaultFilterFn_loop P row lowerSearch rest))"

definition defaultFilterFn :: "platform \<Rightarrow> jsval \<Rightarrow> string \<Rightarrow> Column list \<Rightarrow> bool" where
  "defaultFilterFn P row searchTerm' columns' =
     (if searchTerm' = [] then True
      else defaultFilterFn_loop P row (toLowerCase searchTerm') columns')"

record PaginationState =
  page :: int
  pageSize :: int
  pageSizeOptions :: "int list"
  totalRows :: int
  totalPages :: int
  startIndex :: int
  endIndex :: int
  hasPrevPage :: bool
  hasNextPage :: bool

definition createPaginationState ::
  "int \<Rightarrow> int \<Rightarrow> int \<Rightarrow> int list option \<Rightarrow> PaginationState" where
  "createPaginationState page' pageSize' totalRows' pageSizeOptions' =
     (let totalPages' = max 1 (Math_ceil_div totalRows' pageSize');
          safePage = min (max 1 page') totalPages';
          startIndex' = (safePage - 1) * pageSize';
          endIndex' = min (startIndex' + pageSize') totalRows'
      in \<lparr> page = safePage,
           pageSize = pageSize',
           pageSizeOptions = (case pageSizeOptions' of None \<Rightarrow> [10, 25, 50, 100] | Some l \<Rightarrow> l),
           totalRows = totalRows',
           totalPages = totalPages',
           startIndex = startIndex',
           endIndex = endIndex',
           hasPrevPage = (safePage > 1),
           hasNextPage = (safePage < totalPages') \<rparr>)"

definition generateRowId :: "jsval \<Rightarrow> nat \<Rightarrow> string" where
  "generateRowId row index =
     (let fallback = ''row-'' @ Number_toString (int index)
      in if isObject row then
           (case getProperty row ''id'' of
              JString s \<Rightarrow> s
            | JNumber n \<Rightarrow> Number_toString n
            | _ \<Rightarrow> fallback)
         else fallback)"


section \<open>Table engine (core/table)\<close>

record SortState =
  columnId :: "string option"
  direction :: "SortDir option"

text \<open>
  \<open>interface TableOptions\<close>, the argument of the constructor.  \<open>pagination\<close> is absent,
  a boolean, or a partial configuration (\<open>page\<close>, \<open>pageSize\<close>, \<open>pageSizeOptions\<close>).
\<close>

datatype PaginationOption =
    PaginationAbsent
  | PaginationBool bool
  | PaginationConfig "int option" "int option" "int list option"

record TableOptions =
  opt_data :: "jsval list"
  opt_columns :: "Column list"
  opt_pagination :: PaginationOption
  opt_searchable :: "bool option"
  opt_filterFn :: "(jsval \<Rightarrow> string \<Rightarrow> Column list \<Rightarrow> bool) option"
  opt_multiSort :: "bool option"
  opt_defaultSort :: "SortState option"
  opt_getRowId :: "(jsval \<Rightarrow> nat \<Rightarrow> string) option"

text \<open>The private field \<open>options\<close>: the constructor's argument with every default filled in.\<close>

record Options =
  data :: "jsval list"
  columns :: "Column list"
  searchable :: bool
  multiSort :: bool
  filterFn :: "jsval \<Rightarrow> string \<Rightarrow> Column list \<Rightarrow> bool"
  defaultSort :: SortState
  getRowId :: "jsval \<Rightarrow> nat \<Rightarrow> string"
  pagination :: "PaginationState option"

record TableState =
  originalData :: "jsval list"
  filteredData :: "jsval list"
  sortedData :: "jsval list"
  paginatedData :: "jsval list"
  sortState :: SortState
  searchTerm :: string
  paginationState :: "PaginationState option"
  hiddenColumns :: "string set"

text \<open>
  \<open>class LiteTable\<close>: the fields \<open>state\<close> and \<open>options\<close>.  The listener map is not
  modelled: \<open>emit\<close> hands the listeners a copy of the state and changes nothing.
\<close>

record LiteTable =
  options :: Options
  state :: TableState

definition initPagination :: "TableOptions \<Rightarrow> PaginationState option" where
  "initPagination opts =
     (case opt_pagination opts of
        PaginationAbsent \<Rightarrow> None
      | PaginationBool False \<Rightarrow> None
      | PaginationBool True \<Rightarrow>
          Some (createPaginationState 1 10 (int (length (opt_data opts))) None)
      | PaginationConfig page' pageSize' pageSizeOptions' \<Rightarrow>
          Some (createPaginationState
                  (case page' of None \<Rightarrow> 1 | Some p \<Rightarrow> p)
                  (case pageSize' of None \<Rightarrow> 10 | Some s \<Rightarrow> s)
                  (int (length (opt_data opts)))
                  pageSizeOptions'))"

definition createInitialState :: "Options \<Rightarrow> TableState" where
  "createInitialState opts =
     \<lparr> originalData = data opts,
       filteredData = [],
       sortedData = [],
       paginatedData = [],
       sortState = defaultSort opts,
       searchTerm = [],
       paginationState = pagination opts,
       hiddenColumns = set (map idC (filter (\<lambda>col. hidden col = Some True) (columns opts))) \<rparr>"

definition filterData :: "Options \<Rightarrow> jsval list \<Rightarrow> string \<Rightarrow> jsval list" where
  "filterData opts data' searchTerm' =
     (if \<not> searchable opts \<or> searchTerm' = [] then data'
      else filter (\<lambda>row. filterFn opts row searchTerm' (columns opts)) data')"

text \<open>\<open>!columnId\<close> holds for \<open>null\<close> and for the empty string.\<close>

definition sortData :: "platform \<Rightarrow> Options \<Rightarrow> jsval list \<Rightarrow> SortState \<Rightarrow> jsval list" where
  "sortData P opts data' sortState' =
     (case columnId sortState' of
        None \<Rightarrow> data'
      | Some columnId' \<Rightarrow>
          if columnId' = [] \<or> direction sortState' = None then data'
          else
            (case find (\<lambda>col. idC col = columnId') (columns opts) of
               None \<Rightarrow> data'
             | Some column \<Rightarrow>
                 if sortable column = Some False then data'
                 else Array_sort
                        (\<lambda>a b. case sortFn column of
                                  Some f \<Rightarrow> f a b (direction sortState')
                                | None \<Rightarrow> compareValues P (getCellValue a column)
                                            (getCellValue b column) (direction sortState'))
                        data'))"

definition paginateData :: "jsval list \<Rightarrow> PaginationState option \<Rightarrow> jsval list" where
  "paginateData data' paginationState' =
     (case paginationState' of
        None \<Rightarrow> data'
      | Some p \<Rightarrow> Array_slice data' (startIndex p) (endIndex p))"

definition processData :: "platform \<Rightarrow> LiteTable \<Rightarrow> LiteTable" where
  "processData P t =
     (let s = state t;
          filtered = filterData (options t) (originalData s) (searchTerm s);
          sorted = sortData P (options t) filtered (sortState s);
          paginationState' =
            (case paginationState s of
               None \<Rightarrow> None
             | Some p \<Rightarrow> Some (createPaginationState (page p) (pageSize p)
                                 (int (length sorted)) (Some (pageSizeOptions p))));
          paginated = paginateData sorted paginationState'
      in t \<lparr> state := s \<lparr> filteredData := filtered, sortedData := sorted,
                           paginationState := paginationState',
                           paginatedData := paginated \<rparr> \<rparr>)"

definition new_LiteTable :: "platform \<Rightarrow> TableOptions \<Rightarrow> LiteTable" where
  "new_LiteTable P opts =
     (let options' =
            \<lparr> data = opt_data opts,
              columns = opt_columns opts,
              searchable = (case opt_searchable opts of None \<Rightarrow> True | Some b \<Rightarrow> b),
              multiSort = (case opt_multiSort opts of None \<Rightarrow> False | Some b \<Rightarrow> b),
              filterFn = (case opt_filterFn opts of None \<Rightarrow> defaultFilterFn P | Some f \<Rightarrow> f),
              defaultSort = (case opt_defaultSort opts of
                               None \<Rightarrow> \<lparr> columnId = None, direction = None \<rparr>
                             | Some s \<Rightarrow> s),
              getRowId = (case opt_getRowId opts of None \<Rightarrow> generateRowId | Some f \<Rightarrow> f),
              pagination = initPagination opts \<rparr>
      in processData P \<lparr> options = options', state = createInitialState options' \<rparr>)"

definition getRows :: "LiteTable \<Rightarrow> jsval list" where
  "getRows t = paginatedData (state t)"

definition getAllRows :: "LiteTable \<Rightarrow> jsval list" where
  "getAllRows t = sortedData (state t)"

definition getColumns :: "LiteTable \<Rightarrow> Column list" where
  "getColumns t = columns (options t)"

definition getVisibleColumns :: "LiteTable \<Rightarrow> Column list" where
  "getVisibleColumns t = filter (\<lambda>col. idC col \<notin> hiddenColumns (state t)) (columns (options t))"

definition getState :: "LiteTable \<Rightarrow> TableState" where
  "getState t = state t"

text \<open>\<open>sortBy(columnId, direction?)\<close>; an omitted or \<open>null\<close> direction is \<open>None\<close>.\<close>

definition sortBy :: "platform \<Rightarrow> string \<Rightarrow> SortDir option \<Rightarrow> LiteTable \<Rightarrow> LiteTable" where
  "sortBy P columnId' direction' t =
     (case find (\<lambda>col. idC col = columnId') (columns (options t)) of
        None \<Rightarrow> t
      | Some column \<Rightarrow>
          if sortable column = Some False then t
          else
            (let newDirection =
                   (case direction' of
                      Some d \<Rightarrow> d
                    | None \<Rightarrow>
                        (let current = sortState (state t)
                         in if columnId current = Some columnId'
                            then (if direction current = Some Asc then Desc else Asc)
                            else Asc))
             in processData P
                  (t \<lparr> state := (state t) \<lparr> sortState :=
                         \<lparr> columnId = Some columnId', direction = Some newDirection \<rparr> \<rparr> \<rparr>)))"

definition clearSort :: "platform \<Rightarrow> LiteTable \<Rightarrow> LiteTable" where
  "clearSort P t =
     processData P (t \<lparr> state := (state t) \<lparr> sortState := \<lparr> columnId = None, direction = None \<rparr> \<rparr> \<rparr>)"

definition search :: "platform \<Rightarrow> string \<Rightarrow> LiteTable \<Rightarrow> LiteTable" where
  "search P term t =
     (let s1 = (state t) \<lparr> searchTerm := term \<rparr>;
          s2 = (case paginationState s1 of
                  None \<Rightarrow> s1
                | Some p \<Rightarrow> s1 \<lparr> paginationState := Some (p \<lparr> page := 1 \<rparr>) \<rparr>)
      in processData P (t \<lparr> state := s2 \<rparr>))"

definition goToPage :: "platform \<Rightarrow> int \<Rightarrow> LiteTable \<Rightarrow> LiteTable" where
  "goToPage P page' t =
     (case paginationState (state t) of
        None \<Rightarrow> t
      | Some p \<Rightarrow>
          (let safePage = min (max 1 page') (totalPages p);
               p' = createPaginationState safePage (pageSize p)
                      (int (length (sortedData (state t)))) (Some (pageSizeOptions p))
           in processData P (t \<lparr> state := (state t) \<lparr> paginationState := Some p' \<rparr> \<rparr>)))"

definition nextPage :: "platform \<Rightarrow> LiteTable \<Rightarrow> LiteTable" where
  "nextPage P t =
     (case paginationState (state t) of
        None \<Rightarrow> t
      | Some p \<Rightarrow> if \<not> hasNextPage p then t else goToPage P (page p + 1) t)"

definition prevPage :: "platform \<Rightarrow> LiteTable \<Rightarrow> LiteTable" where
  "prevPage P t =
     (case paginationState (state t) of
        None \<Rightarrow> t
      | Some p \<Rightarrow> if \<not> hasPrevPage p then t else goToPage P (page p - 1) t)"

definition setPageSize :: "platform \<Rightarrow> int \<Rightarrow> LiteTable \<Rightarrow> LiteTable" where
  "setPageSize P size' t =
     (case paginationState (state t) of
        None \<Rightarrow> t
      | Some p \<Rightarrow>
          (let p' = createPaginationState 1 size'
                      (int (length (sortedData (state t)))) (Some (pageSizeOptions p))
           in processData P (t \<lparr> state := (state t) \<lparr> paginationState := Some p' \<rparr> \<rparr>)))"

definition toggleColumn :: "string \<Rightarrow> LiteTable \<Rightarrow> LiteTable" where
  "toggleColumn columnId' t =
     (if columnId' \<in> hiddenColumns (state t)
      then t \<lparr> state := (state t) \<lparr> hiddenColumns := hiddenColumns (state t) - {columnId'} \<rparr> \<rparr>
      else t \<lparr> state := (state t) \<lparr> hiddenColumns := insert columnId' (hiddenColumns (state t)) \<rparr> \<rparr>)"

definition showColumn :: "string \<Rightarrow> LiteTable \<Rightarrow> LiteTable" where
  "showColumn columnId' t =
     t \<lparr> state := (state t) \<lparr> hiddenColumns := hiddenColumns (state t) - {columnId'} \<rparr> \<rparr>"

definition hideColumn :: "string \<Rightarrow> LiteTable \<Rightarrow> LiteTable" where
  "hideColumn columnId' t =
     (if columnId' \<notin> hiddenColumns (state t)
      then t \<lparr> state := (state t) \<lparr> hiddenColumns := insert columnId' (hiddenColumns (state t)) \<rparr> \<rparr>
      else t)"

definition reset :: "platform \<Rightarrow> LiteTable \<Rightarrow> LiteTable" where
  "reset P t = processData P (t \<lparr> state := createInitialState (options t) \<rparr>)"

definition setData :: "platform \<Rightarrow> jsval list \<Rightarrow> LiteTable \<Rightarrow> LiteTable" where
  "setData P data' t = processData P (t \<lparr> state := (state t) \<lparr> originalData := data' \<rparr> \<rparr>)"

definition getRowById :: "string \<Rightarrow> LiteTable \<Rightarrow> jsval option" where
  "getRowById id' t =
     Array_find (\<lambda>row index. getRowId (options t) row index = id') (originalData (state t))"

text \<open>The public mutators, and a table's life as the sequence of the calls made on it.\<close>

datatype Mutation =
    SortBy string "SortDir option"
  | ClearSort
  | Search string
  | GoToPage int
  | NextPage
  | PrevPage
  | SetPageSize int
  | ToggleColumn string
  | ShowColumn string
  | HideColumn string
  | Reset
  | SetData "jsval list"

fun mutate :: "platform \<Rightarrow> LiteTable \<Rightarrow> Mutation \<Rightarrow> LiteTable" where
  "mutate P t (SortBy c d) = sortBy P c d t"
| "mutate P t ClearSort = clearSort P t"
| "mutate P t (Search term) = search P term t"
| "mutate P t (GoToPage n) = goToPage P n t"
| "mutate P t NextPage = nextPage P t"
| "mutate P t PrevPage = prevPage P t"
| "mutate P t (SetPageSize n) = setPageSize P n t"
| "mutate P t (ToggleColumn c) = toggleColumn c t"
| "mutate P t (ShowColumn c) = showColumn c t"
| "mutate P t (HideColumn c) = hideColumn c t"
| "mutate P t Reset = reset P t"
| "mutate P t (SetData rows) = setData P rows t"

definition run_mutations :: "platform \<Rightarrow> TableOptions \<Rightarrow> Mutation list \<Rightarrow> LiteTable" where
  "run_mutations P opts ms = foldl (mutate P) (new_LiteTable P opts) ms"

text \<open>
  Page sizes are positive: the configured one and every one passed to \<open>setPageSize\<close>.
\<close>

fun positive_size :: "Mutation \<Rightarrow> bool" where
  "positive_size (SetPageSize n) = (0 < n)"
| "positive_size m = True"

definition positive_sizes :: "TableOptions \<Rightarrow> Mutation list \<Rightarrow> bool" where
  "positive_sizes opts ms =
     ((case opt_pagination opts of
         PaginationConfig page' (Some s) pageSizeOptions' \<Rightarrow> 0 < s
       | _ \<Rightarrow> True)
      \<and> list_all positive_size ms)"


subsection \<open>Reference pipeline\<close>

text \<open>
  The three stages as the specification words them, each on its own.  Filter: if searchable
  and the term is non-empty, keep the rows for which the configured predicate holds.  Sort:
  if a sort column is set (the column id of the sort state is not null) and that column
  exists and is sortable, stable-sort with the column's custom comparator or else with the
  default comparator on the cell values, in the direction of the sort state.  Paginate: if
  pagination is enabled, with \<open>totalPages = max(1, ceil(totalRows / pageSize))\<close> and the
  page clamped to \<open>[1, totalPages]\<close>, take the rows of that page, that is \<open>pageSize\<close>
  rows from offset \<open>(page - 1) * pageSize\<close> on, or as many as are left.
\<close>

definition spec_filter :: "Options \<Rightarrow> string \<Rightarrow> jsval list \<Rightarrow> jsval list" where
  "spec_filter opts term rows =
     (if searchable opts \<and> term \<noteq> []
      then filter (\<lambda>row. filterFn opts row term (columns opts)) rows
      else rows)"

definition spec_sort_column :: "Options \<Rightarrow> SortState \<Rightarrow> (Column \<times> SortDir option) option" where
  "spec_sort_column opts s =
     (case columnId s of
        None \<Rightarrow> None
      | Some c \<Rightarrow>
          (case find (\<lambda>col. idC col = c) (columns opts) of
             None \<Rightarrow> None
           | Some col \<Rightarrow> if sortable col = Some False then None else Some (col, direction s)))"

definition spec_comparator ::
  "platform \<Rightarrow> Column \<Rightarrow> SortDir option \<Rightarrow> jsval \<Rightarrow> jsval \<Rightarrow> int" where
  "spec_comparator P col d a b =
     (case sortFn col of
        Some f \<Rightarrow> f a b d
      | None \<Rightarrow> compareValues P (getCellValue a col) (getCellValue b col) d)"

definition spec_sort :: "platform \<Rightarrow> Options \<Rightarrow> SortState \<Rightarrow> jsval list \<Rightarrow> jsval list" where
  "spec_sort P opts s rows =
     (case spec_sort_column opts s of
        None \<Rightarrow> rows
      | Some (col, d) \<Rightarrow> Array_sort (spec_comparator P col d) rows)"

definition spec_paginate :: "(int \<times> int) option \<Rightarrow> jsval list \<Rightarrow> jsval list" where
  "spec_paginate pg rows =
     (case pg of
        None \<Rightarrow> rows
      | Some (page', pageSize') \<Rightarrow>
          (let totalPages' = max 1 \<lceil>real_of_int (int (length rows)) / real_of_int pageSize'\<rceil>;
               p = min (max 1 page') totalPages'
           in take (nat pageSize') (drop (nat ((p - 1) * pageSize')) rows)))"

text \<open>
  The data-model invariant of the pagination descriptor \<open>p\<close> over \<open>n\<close> rows: the number of
  pages, the clamped page, and a slice bound inside the rows.
\<close>

definition pagination_invariant :: "PaginationState \<Rightarrow> int \<Rightarrow> bool" where
  "pagination_invariant p n \<longleftrightarrow>
     totalRows p = n \<and>
     totalPages p = max 1 \<lceil>real_of_int n / real_of_int (pageSize p)\<rceil> \<and>
     1 \<le> page p \<and> page p \<le> totalPages p \<and>
     0 \<le> startIndex p \<and> startIndex p \<le> endIndex p \<and> endIndex p \<le> n"

text \<open>A platform for concrete runs: code-unit order as collation, an empty date text.\<close>

fun code_unit_compare :: "string \<Rightarrow> string \<Rightarrow> int" where
  "code_unit_compare [] [] = 0"
| "code_unit_compare [] (c # t) = - 1"
| "code_unit_compare (d # s) [] = 1"
| "code_unit_compare (d # s) (c # t) =
     (if (of_char d :: nat) < of_char c then - 1
      else if (of_char c :: nat) < of_char d then 1
      else code_unit_compare s t)"

definition test_platform :: platform where
  "test_platform = \<lparr> localeCompare = code_unit_compare, dateToString = (\<lambda>t. []) \<rparr>"

definition positive_pageSize :: "PaginationState option \<Rightarrow> bool" where
  "positive_pageSize po = (case po of None \<Rightarrow> True | Some p \<Rightarrow> 0 < pageSize p)"

text \<open>
  What every call of \<open>processData\<close> leaves behind: each derived field is the stage
  function applied to the field before it, and page sizes are positive.
\<close>

definition consistent :: "platform \<Rightarrow> LiteTable \<Rightarrow> bool" where
  "consistent P t \<longleftrightarrow>
     filteredData (state t) =
       filterData (options t) (originalData (state t)) (searchTerm (state t)) \<and>
     sortedData (state t) =
       sortData P (options t) (filteredData (state t)) (sortState (state t)) \<and>
     paginatedData (state t) = paginateData (sortedData (state t)) (paginationState (state t)) \<and>
     (case paginationState (state t) of
        None \<Rightarrow> True
      | Some p \<Rightarrow> 0 < pageSize p \<and>
          p = createPaginationState (page p) (pageSize p)
                (int (length (sortedData (state t)))) (Some (pageSizeOptions p))) \<and>
     (case pagination (options t) of None \<Rightarrow> True | Some p \<Rightarrow> 0 < pageSize p)"

subsection \<open>A small table for concrete runs\<close>

definition person :: "int \<Rightarrow> string \<Rightarrow> jsval \<Rightarrow> jsval" where
  "person i name' age' = JObject [(''id'', JNumber i), (''name'', JString name'), (''age'', age')]"

definition people :: "jsval list" where
  "people = [person 1 ''Bob'' (JNumber 30), person 2 ''Alice'' JNull,
             person 3 ''Carol'' (JNumber 25), person 4 ''Dora'' (JNumber 41),
             person 5 ''Rob'' JNull]"

definition plain_column :: "string \<Rightarrow> string \<Rightarrow> Column" where
  "plain_column i h = \<lparr> idC = i, header = h, accessor = None, sortable = None, sortFn = None,
                        filterable = None, hidden = None \<rparr>"

definition people_options :: TableOptions where
  "people_options =
     \<lparr> opt_data = people,
       opt_columns = [plain_column ''name'' ''Name'', plain_column ''age'' ''Age''],
       opt_pagination = PaginationConfig (Some 1) (Some 2) None,
       opt_searchable = None, opt_filterFn = None, opt_multiSort = None,
       opt_defaultSort = None, opt_getRowId = None \<rparr>"

definition twins :: "jsval list" where
  "twins = [person 7 ''Ann'' (JNumber 1), person 7 ''Ben'' (JNumber 2)]"

definition twins_options :: TableOptions where
  "twins_options = people_options \<lparr> opt_data := twins, opt_pagination := PaginationAbsent \<rparr>"

text \<open>
  A table whose one column has the empty string as id; it reads the age of a row through
  an accessor and is sortable.
\<close>

definition blank_column :: Column where
  "blank_column = \<lparr> idC = [], header = ''Age'',
                     accessor = Some (\<lambda>row. getProperty row ''age''),
                     sortable = Some True, sortFn = None, filterable = None, hidden = None \<rparr>"

definition blank_options :: TableOptions where
  "blank_options =
     \<lparr> opt_data = [person 1 ''Bob'' (JNumber 30), person 3 ''Carol'' (JNumber 25)],
       opt_columns = [blank_column],
       opt_pagination = PaginationAbsent,
       opt_searchable = None, opt_filterFn = None, opt_multiSort = None,
       opt_defaultSort = None, opt_getRowId = None \<rparr>"

text \<open>
  A column whose accessor answers 0 for a row that is \<open>undefined\<close> and the age of the row
  otherwise, and an array whose last element is \<open>undefined\<close>.
\<close>

definition lenient_column :: Column where
  "lenient_column = \<lparr> idC = ''age'', header = ''Age'',
                       accessor = Some (\<lambda>row. if row = JUndefined then JNumber 0
                                                 else getProperty row ''age''),
                       sortable = None, sortFn = None, filterable = None, hidden = None \<rparr>"

definition lenient_options :: TableOptions where
  "lenient_options =
     \<lparr> opt_data = [person 1 ''Bob'' (JNumber 3), person 2 ''Alice'' JNull, JUndefined],
       opt_columns = [lenient_column],
       opt_pagination = PaginationAbsent,
       opt_searchable = None, opt_filterFn = None, opt_multiSort = None,
       opt_defaultSort = None, opt_getRowId = None \<rparr>"

section \<open>Virtual scroll engine (plugins/virtual-scroll)\<close>

record VirtualScrollConfig =
  rowHeight :: int
  overscan :: "int option"
  containerHeight :: int
  enabled :: "bool option"

record VirtualScrollState =
  startIndexV :: int
  endIndexV :: int
  totalHeight :: int
  scrollTop :: int
  visibleRows :: int
  offsetY :: int

text \<open>\<open>calculateVirtualScroll(data, config, scrollTop)\<close>; \<open>overscan\<close> defaults to 5.\<close>

definition calculateVirtualScroll ::
  "'a list \<Rightarrow> VirtualScrollConfig \<Rightarrow> int \<Rightarrow> VirtualScrollState" where
  "calculateVirtualScroll data' config scrollTop' =
     (let rowHeight' = rowHeight config;
          containerHeight' = containerHeight config;
          overscan' = (case overscan config of None \<Rightarrow> 5 | Some v \<Rightarrow> v);
          totalHeight' = int (length data') * rowHeight';
          startIndex' = max 0 (Math_floor_div scrollTop' rowHeight' - overscan');
          visibleRows' = Math_ceil_div containerHeight' rowHeight';
          endIndex' = min (int (length data')) (startIndex' + visibleRows' + overscan' * 2);
          offsetY' = startIndex' * rowHeight'
      in \<lparr> startIndexV = startIndex', endIndexV = endIndex', totalHeight = totalHeight',
           scrollTop = scrollTop', visibleRows = visibleRows', offsetY = offsetY' \<rparr>)"

definition getVirtualRows :: "'a list \<Rightarrow> VirtualScrollState \<Rightarrow> 'a list" where
  "getVirtualRows data' state' = Array_slice data' (startIndexV state') (endIndexV state')"

text \<open>
  \<open>class VirtualScrollManager\<close>: the private fields \<open>config\<close>, \<open>state\<close> and \<open>data\<close>.
  The listener set only receives copies of the state and is not modelled.
\<close>

record 'a VirtualScrollManager =
  vconfig :: VirtualScrollConfig
  vstate :: VirtualScrollState
  vdata :: "'a list"

definition new_VirtualScrollManager ::
  "'a list \<Rightarrow> VirtualScrollConfig \<Rightarrow> 'a VirtualScrollManager" where
  "new_VirtualScrollManager data' config =
     (let config' = \<lparr> rowHeight = rowHeight config,
                       overscan = Some (case overscan config of None \<Rightarrow> 5 | Some v \<Rightarrow> v),
                       containerHeight = containerHeight config,
                       enabled = Some (case enabled config of None \<Rightarrow> True | Some b \<Rightarrow> b) \<rparr>
      in \<lparr> vconfig = config', vstate = calculateVirtualScroll data' config' 0, vdata = data' \<rparr>)"

definition handleScroll :: "int \<Rightarrow> 'a VirtualScrollManager \<Rightarrow> 'a VirtualScrollManager" where
  "handleScroll scrollTop' m = m \<lparr> vstate := calculateVirtualScroll (vdata m) (vconfig m) scrollTop' \<rparr>"

definition updateData :: "'a list \<Rightarrow> 'a VirtualScrollManager \<Rightarrow> 'a VirtualScrollManager" where
  "updateData data' m =
     m \<lparr> vdata := data',
         vstate := calculateVirtualScroll data' (vconfig m) (scrollTop (vstate m)) \<rparr>"

definition getVisibleRows :: "'a VirtualScrollManager \<Rightarrow> 'a list" where
  "getVisibleRows m = getVirtualRows (vdata m) (vstate m)"

text \<open>\<open>scrollToIndex(index)\<close> returns the clamped offset and scrolls there.\<close>

definition scrollToIndex :: "int \<Rightarrow> 'a VirtualScrollManager \<Rightarrow> int \<times> 'a VirtualScrollManager" where
  "scrollToIndex index m =
     (let scrollTop' = max 0 (min (index * rowHeight (vconfig m))
                                  (totalHeight (vstate m) - containerHeight (vconfig m)))
      in (scrollTop', handleScroll scrollTop' m))"

text \<open>
  Row \<open>i\<close> occupies the pixels from \<open>i * rowHeight\<close> up to \<open>(i + 1) * rowHeight\<close>; the
  viewport shows the pixels from \<open>scrollTop\<close> up to \<open>scrollTop + containerHeight\<close>.  In row
  units: row \<open>i\<close> overlaps the window from \<open>scrollTop / rowHeight\<close> to
  \<open>(scrollTop + containerHeight) / rowHeight\<close> in more than a point.
\<close>

definition row_in_viewport :: "int \<Rightarrow> int \<Rightarrow> int \<Rightarrow> int \<Rightarrow> bool" where
  "row_in_viewport rowHeight' containerHeight' scrollTop' i \<longleftrightarrow>
     real_of_int i < real_of_int (scrollTop' + containerHeight') / real_of_int rowHeight' \<and>
     real_of_int scrollTop' / real_of_int rowHeight' < real_of_int (i + 1)"



section \<open>Server-side fetch engine (plugins/server-side)\<close>

text \<open>An \<open>Error\<close> object, as far as the engine looks at it: its \<open>name\<close> and \<open>message\<close>.\<close>

datatype JsError = JsError (err_name: string) (err_message: string)

text \<open>
  \<open>interface ServerSideState\<close>.  The row type \<open>'r\<close> stands for the \<open>unknown\<close> elements of
  \<open>data\<close>, and \<open>'p\<close> for \<open>ServerRequestParams\<close>, which the request life cycle only stores.
\<close>

record ('r, 'p) ServerSideState =
  loading :: bool
  error :: "JsError option"
  dataS :: "'r list"
  totalRowsS :: int
  lastParams :: "'p option"

text \<open>
  What the network step of one \<open>fetchData\<close> call ends with when nobody cancels it: either
  \<open>fetch\<close> resolves with a response (\<open>ok\<close>, \<open>status\<close>, \<open>statusText\<close>, and the \<open>data\<close> and
  \<open>total\<close> that \<open>response.json()\<close> followed by \<open>transformResponse\<close> delivers), or a promise
  of the \<open>try\<close> block rejects with an error.
\<close>

datatype 'r FetchResult =
    Response bool int string "'r list" int
  | Rejected JsError

text \<open>
  One \<open>AbortController\<close> is created per \<open>fetchData\<close> call and handed to exactly one
  \<open>fetch\<close>; the pair is one entry of \<open>requests\<close>, its index the identity of both.
  \<open>aborted\<close> is \<open>signal.aborted\<close>; \<open>settled\<close> says that the \<open>await\<close> of that call has
  already returned control to \<open>fetchData\<close>.
\<close>

record Request =
  aborted :: bool
  settled :: bool

text \<open>
  \<open>class ServerSideManager\<close>: the fields \<open>state\<close>, \<open>abortController\<close> (a reference into
  \<open>requests\<close>), \<open>debounceTimeout\<close> (the pending timer with the parameters its callback
  captured; a handle to a timer that has fired behaves like none, since the field is only
  ever passed to \<open>clearTimeout\<close>), and of \<open>config\<close> whether \<open>onError\<close> is set.
  \<open>onErrorCalls\<close> records every invocation of \<open>config.onError\<close>.  Listeners only receive
  copies of the state and are not modelled.
\<close>

record ('r, 'p) ServerSideManager =
  sstate :: "('r, 'p) ServerSideState"
  abortController :: "nat option"
  debounceTimeout :: "'p option"
  requests :: "Request list"
  onError :: bool
  onErrorCalls :: "JsError list"

definition new_ServerSideManager :: "bool \<Rightarrow> ('r, 'p) ServerSideManager" where
  "new_ServerSideManager onError' =
     \<lparr> sstate = \<lparr> loading = False, error = None, dataS = [], totalRowsS = 0, lastParams = None \<rparr>,
       abortController = None, debounceTimeout = None, requests = [],
       onError = onError', onErrorCalls = [] \<rparr>"

text \<open>\<open>controller.abort()\<close> on the controller with index \<open>c\<close>.\<close>

definition abort :: "nat \<Rightarrow> Request list \<Rightarrow> Request list" where
  "abort c rs = (if c < length rs then rs[c := (rs ! c)\<lparr> aborted := True \<rparr>] else rs)"

text \<open>
  \<open>fetchData(params)\<close> up to its first \<open>await\<close>: abort the controller the field refers to,
  create a new controller, set the loading state, start the request.
\<close>

definition fetchData :: "'p \<Rightarrow> ('r, 'p) ServerSideManager \<Rightarrow> ('r, 'p) ServerSideManager" where
  "fetchData params m =
     (let rs = (case abortController m of Some c \<Rightarrow> abort c (requests m) | None \<Rightarrow> requests m);
          c' = length rs
      in m \<lparr> requests := rs @ [\<lparr> aborted = False, settled = False \<rparr>],
             abortController := Some c',
             sstate := (sstate m) \<lparr> loading := True, error := None, lastParams := Some params \<rparr> \<rparr>)"

text \<open>The \<open>catch\<close> block of \<open>fetchData\<close>.\<close>

definition catch_block :: "JsError \<Rightarrow> ('r, 'p) ServerSideManager \<Rightarrow> ('r, 'p) ServerSideManager" where
  "catch_block err m =
     (if err_name err = ''AbortError'' then m
      else (let m' = m \<lparr> sstate := (sstate m) \<lparr> loading := False, error := Some err,
                                                 dataS := [], totalRowsS := 0 \<rparr> \<rparr>
            in if onError m' then m' \<lparr> onErrorCalls := onErrorCalls m' @ [err] \<rparr> else m'))"

text \<open>
  The rest of a \<open>fetchData\<close> call, run when the network step of request \<open>rid\<close> ends.
  \<open>fetch\<close> honours its signal: once the signal is aborted the pending promise rejects
  with an \<open>AbortError\<close>, whatever the network would have answered.  The \<open>finally\<close> block
  then clears the manager's \<open>abortController\<close> field.  An exception thrown by a hook
  inside the \<open>try\<close> block takes the same path as a rejection.  The promise settling and
  \<open>fetchData\<close> resuming are one event: no method call falls between the two.
\<close>

definition settle ::
  "nat \<Rightarrow> 'r FetchResult \<Rightarrow> ('r, 'p) ServerSideManager \<Rightarrow> ('r, 'p) ServerSideManager" where
  "settle rid result m =
     (if rid \<ge> length (requests m) \<or> settled (requests m ! rid) then m
      else
        (let r = requests m ! rid;
             m1 = m \<lparr> requests := (requests m)[rid := r \<lparr> settled := True \<rparr>] \<rparr>;
             effective = (if aborted r then Rejected (JsError ''AbortError'' ''The operation was aborted.'')
                          else result);
             m2 = (case effective of
                     Response ok status statusText data' total' \<Rightarrow>
                       if \<not> ok then
                         catch_block (JsError ''Error''
                           (''HTTP '' @ Number_toString status @ '': '' @ statusText)) m1
                       else m1 \<lparr> sstate := (sstate m1) \<lparr> loading := False, dataS := data',
                                                          totalRowsS := total' \<rparr> \<rparr>
                   | Rejected err \<Rightarrow> catch_block err m1)
         in m2 \<lparr> abortController := None \<rparr>))"

definition fetchDataDebounced ::
  "'p \<Rightarrow> ('r, 'p) ServerSideManager \<Rightarrow> ('r, 'p) ServerSideManager" where
  "fetchDataDebounced params m = m \<lparr> debounceTimeout := Some params \<rparr>"

text \<open>The timer callback of \<open>fetchDataDebounced\<close>.\<close>

definition timerFired :: "('r, 'p) ServerSideManager \<Rightarrow> ('r, 'p) ServerSideManager" where
  "timerFired m =
     (case debounceTimeout m of
        None \<Rightarrow> m
      | Some params \<Rightarrow> fetchData params (m \<lparr> debounceTimeout := None \<rparr>))"

definition cancel :: "('r, 'p) ServerSideManager \<Rightarrow> ('r, 'p) ServerSideManager" where
  "cancel m =
     (let m1 = (case abortController m of
                  Some c \<Rightarrow> m \<lparr> requests := abort c (requests m), abortController := None \<rparr>
                | None \<Rightarrow> m)
      in m1 \<lparr> debounceTimeout := None \<rparr>)"

definition destroyS :: "('r, 'p) ServerSideManager \<Rightarrow> ('r, 'p) ServerSideManager" where
  "destroyS m = cancel m"

text \<open>
  The life of a manager is a sequence of events on the single JavaScript thread: calls of
  its methods, timer callbacks, and network steps coming to an end.
\<close>

datatype ('r, 'p) Event =
    FetchData 'p
  | FetchDataDebounced 'p
  | TimerFired
  | Settle nat "'r FetchResult"
  | Cancel
  | Destroy

fun step :: "('r, 'p) ServerSideManager \<Rightarrow> ('r, 'p) Event \<Rightarrow> ('r, 'p) ServerSideManager" where
  "step m (FetchData params) = fetchData params m"
| "step m (FetchDataDebounced params) = fetchDataDebounced params m"
| "step m TimerFired = timerFired m"
| "step m (Settle rid result) = settle rid result m"
| "step m Cancel = cancel m"
| "step m Destroy = destroyS m"

definition run_events ::
  "('r, 'p) ServerSideManager \<Rightarrow> ('r, 'p) Event list \<Rightarrow> ('r, 'p) ServerSideManager" where
  "run_events m es = foldl step m es"

text \<open>The requests that are in flight and whose signal has not been aborted.\<close>

definition active_requests :: "('r, 'p) ServerSideManager \<Rightarrow> nat list" where
  "active_requests m =
     filter (\<lambda>i. \<not> settled (requests m ! i) \<and> \<not> aborted (requests m ! i))
       [0 ..< length (requests m)]"

text \<open>
  What the state must be once a call \<open>fetchData(params)\<close> issued in state \<open>s\<close> has run to
  its end with \<open>result\<close>, nothing else having touched the state.
\<close>

definition outcome_state ::
  "('r, 'p) ServerSideState \<Rightarrow> 'p \<Rightarrow> 'r FetchResult \<Rightarrow> ('r, 'p) ServerSideState" where
  "outcome_state s params result =
     (case result of
        Response ok status statusText data' total' \<Rightarrow>
          if ok then \<lparr> loading = False, error = None, dataS = data', totalRowsS = total',
                      lastParams = Some params \<rparr>
          else \<lparr> loading = False,
                 error = Some (JsError ''Error'' (''HTTP '' @ Number_toString status @ '': '' @ statusText)),
                 dataS = [], totalRowsS = 0, lastParams = Some params \<rparr>
      | Rejected err \<Rightarrow>
          if err_name err = ''AbortError''
          then \<lparr> loading = True, error = None, dataS = dataS s, totalRowsS = totalRowsS s,
                 lastParams = Some params \<rparr>
          else \<lparr> loading = False, error = Some err, dataS = [], totalRowsS = 0,
                 lastParams = Some params \<rparr>)"

definition outcome_errors :: "bool \<Rightarrow> 'r FetchResult \<Rightarrow> JsError list" where
  "outcome_errors onError' result =
     (case result of
        Response ok status statusText data' total' \<Rightarrow>
          if \<not> ok \<and> onError'
          then [JsError ''Error'' (''HTTP '' @ Number_toString status @ '': '' @ statusText)]
          else []
      | Rejected err \<Rightarrow> if err_name err \<noteq> ''AbortError'' \<and> onError' then [err] else [])"


section \<open>Pagination calculator: properties\<close>

lemma ceil_div_real: "Math_ceil_div a b = \<lceil>real_of_int a / real_of_int b\<rceil>"
  by (simp add: Math_ceil_div_def ceiling_divide_eq_div)

lemma ceil_div_bounds:
  assumes "0 < b"
  shows "(Math_ceil_div a b - 1) * b < a" and "a \<le> Math_ceil_div a b * b"
proof -
  define d where "d = (- a) div b"
  define r where "r = (- a) mod b"
  have e: "d * b + r = - a" unfolding d_def r_def by simp
  have r: "0 \<le> r" "r < b" unfolding r_def using assms by simp_all
  have c: "Math_ceil_div a b = - d" by (simp add: Math_ceil_div_def d_def)
  have 1: "(- d - 1) * b = - (d * b) - b" by (simp add: algebra_simps)
  have 2: "(- d) * b = - (d * b)" by simp
  show "(Math_ceil_div a b - 1) * b < a" unfolding c 1 using e r by linarith
  show "a \<le> Math_ceil_div a b * b" unfolding c 2 using e r by linarith
qed

lemma cps_fields:
  "pageSize (createPaginationState pg k n ol) = k"
  "totalRows (createPaginationState pg k n ol) = n"
  "totalPages (createPaginationState pg k n ol) = max 1 (Math_ceil_div n k)"
  "startIndex (createPaginationState pg k n ol) = (page (createPaginationState pg k n ol) - 1) * k"
  "endIndex (createPaginationState pg k n ol) =
     min (startIndex (createPaginationState pg k n ol) + k) n"
  "pageSizeOptions (createPaginationState pg k n (Some l)) = l"
  "hasPrevPage (createPaginationState pg k n ol) = (1 < page (createPaginationState pg k n ol))"
  "hasNextPage (createPaginationState pg k n ol) =
     (page (createPaginationState pg k n ol) < totalPages (createPaginationState pg k n ol))"
  by (simp_all add: createPaginationState_def Let_def)

lemma cps_page:
  "page (createPaginationState pg k n ol) = min (max 1 pg) (max 1 (Math_ceil_div n k))"
  by (simp add: createPaginationState_def Let_def)

lemma cps_page_range:
  "1 \<le> page (createPaginationState pg k n ol)"
  "page (createPaginationState pg k n ol) \<le> totalPages (createPaginationState pg k n ol)"
  by (simp_all add: cps_page cps_fields)

lemma clamp_idem: "(1::int) \<le> T \<Longrightarrow> min (max 1 (min (max 1 pg) T)) T = min (max 1 pg) T"
  by simp

lemma cps_clamped:
  "createPaginationState (min (max 1 pg) (max 1 (Math_ceil_div n k))) k n ol =
   createPaginationState pg k n ol"
  by (simp add: createPaginationState_def Let_def clamp_idem)

lemma cps_idem:
  "createPaginationState (page (createPaginationState pg k n ol)) k n ol =
   createPaginationState pg k n ol"
  by (simp only: cps_page cps_clamped)

lemma cps_slice_bounds:
  assumes "0 < k" and "0 \<le> n"
  shows "0 \<le> startIndex (createPaginationState pg k n ol)"
    and "startIndex (createPaginationState pg k n ol) \<le> endIndex (createPaginationState pg k n ol)"
    and "endIndex (createPaginationState pg k n ol) \<le> n"
proof -
  define c where "c = Math_ceil_div n k"
  define sp where "sp = page (createPaginationState pg k n ol)"
  define s where "s = startIndex (createPaginationState pg k n ol)"
  have sp: "1 \<le> sp" "sp \<le> max 1 c"
    unfolding sp_def c_def using cps_page_range [of pg k n ol] by (simp_all add: cps_fields)
  have s: "s = (sp - 1) * k" by (simp add: s_def sp_def cps_fields)
  have s0: "0 \<le> s" unfolding s using sp(1) assms(1) by simp
  have top: "(max 1 c - 1) * k \<le> n"
  proof (cases "c \<le> 1")
    case True
    then show ?thesis using assms(2) by (simp add: max_def)
  next
    case False
    then have "max 1 c = c" by simp
    then show ?thesis using ceil_div_bounds(1) [OF assms(1), of n] by (simp add: c_def)
  qed
  have "(sp - 1) * k \<le> (max 1 c - 1) * k"
    using sp(2) assms(1) by (intro mult_right_mono) simp_all
  then have sn: "s \<le> n" using top s by linarith
  show "0 \<le> startIndex (createPaginationState pg k n ol)" using s0 by (simp add: s_def)
  have e: "endIndex (createPaginationState pg k n ol) = min (s + k) n"
    by (simp add: cps_fields s_def)
  show "startIndex (createPaginationState pg k n ol) \<le> endIndex (createPaginationState pg k n ol)"
    unfolding e s_def [symmetric] using sn assms(1) by simp
  show "endIndex (createPaginationState pg k n ol) \<le> n" unfolding e by simp
qed

lemma cps_invariant:
  assumes "0 < k" and "0 \<le> n"
  shows "pagination_invariant (createPaginationState pg k n ol) n"
  unfolding pagination_invariant_def
  using cps_slice_bounds [OF assms, of pg ol] cps_page_range [of pg k n ol]
  by (simp add: cps_fields ceil_div_real)

lemma cps_empty:
  assumes "0 < k"
  shows "totalPages (createPaginationState pg k 0 ol) = 1"
    and "page (createPaginationState pg k 0 ol) = 1"
    and "startIndex (createPaginationState pg k 0 ol) = 0"
    and "endIndex (createPaginationState pg k 0 ol) = 0"
proof -
  have c: "Math_ceil_div 0 k = 0" by (simp add: Math_ceil_div_def)
  show tp: "totalPages (createPaginationState pg k 0 ol) = 1" by (simp add: cps_fields c)
  show pg: "page (createPaginationState pg k 0 ol) = 1" by (simp add: cps_page c)
  show st: "startIndex (createPaginationState pg k 0 ol) = 0" by (simp add: cps_fields pg)
  show "endIndex (createPaginationState pg k 0 ol) = 0"
    using assms by (simp add: cps_fields(5) st)
qed


section \<open>Table engine: the derived view\<close>

lemma processData_options: "options (processData P t) = options t"
  by (simp add: processData_def Let_def)

lemma processData_kept:
  "originalData (state (processData P t)) = originalData (state t)"
  "searchTerm (state (processData P t)) = searchTerm (state t)"
  "sortState (state (processData P t)) = sortState (state t)"
  "hiddenColumns (state (processData P t)) = hiddenColumns (state t)"
  by (simp_all add: processData_def Let_def)

lemma processData_derived:
  "filteredData (state (processData P t)) =
     filterData (options t) (originalData (state t)) (searchTerm (state t))"
  "sortedData (state (processData P t)) =
     sortData P (options t)
       (filterData (options t) (originalData (state t)) (searchTerm (state t)))
       (sortState (state t))"
  "paginatedData (state (processData P t)) =
     paginateData (sortedData (state (processData P t))) (paginationState (state (processData P t)))"
  by (simp_all add: processData_def Let_def)

lemma processData_pagination:
  "paginationState (state (processData P t)) =
     (case paginationState (state t) of
        None \<Rightarrow> None
      | Some p \<Rightarrow> Some (createPaginationState (page p) (pageSize p)
                          (int (length (sortedData (state (processData P t)))))
                          (Some (pageSizeOptions p))))"
  by (simp add: processData_def Let_def split: option.split)

lemma positive_pageSize_simps:
  "positive_pageSize None"
  "positive_pageSize (Some p) = (0 < pageSize p)"
  by (simp_all add: positive_pageSize_def)

lemma consistent_positive:
  "consistent P t \<Longrightarrow> positive_pageSize (paginationState (state t))"
  "consistent P t \<Longrightarrow> positive_pageSize (pagination (options t))"
  by (auto simp add: consistent_def positive_pageSize_def split: option.splits)

lemma processData_consistent:
  assumes "positive_pageSize (paginationState (state t))"
    and "positive_pageSize (pagination (options t))"
  shows "consistent P (processData P t)"
proof -
  let ?t = "processData P t"
  have f: "filteredData (state ?t) =
      filterData (options ?t) (originalData (state ?t)) (searchTerm (state ?t))"
    by (simp add: processData_derived processData_kept processData_options)
  have s: "sortedData (state ?t) =
      sortData P (options ?t) (filteredData (state ?t)) (sortState (state ?t))"
    by (simp add: processData_derived processData_kept processData_options)
  have p: "paginatedData (state ?t) =
      paginateData (sortedData (state ?t)) (paginationState (state ?t))"
    by (rule processData_derived(3))
  have g: "case paginationState (state ?t) of
        None \<Rightarrow> True
      | Some p \<Rightarrow> 0 < pageSize p \<and>
          p = createPaginationState (page p) (pageSize p)
                (int (length (sortedData (state ?t)))) (Some (pageSizeOptions p))"
  proof (cases "paginationState (state t)")
    case None
    then show ?thesis by (simp add: processData_pagination)
  next
    case (Some q)
    then have k: "0 < pageSize q" using assms(1) by (simp add: positive_pageSize_def)
    have "paginationState (state ?t) =
        Some (createPaginationState (page q) (pageSize q)
               (int (length (sortedData (state ?t)))) (Some (pageSizeOptions q)))"
      using Some by (simp add: processData_pagination)
    then show ?thesis using k by (simp add: cps_fields cps_idem)
  qed
  have o: "case pagination (options ?t) of None \<Rightarrow> True | Some p \<Rightarrow> 0 < pageSize p"
    using assms(2) by (simp add: processData_options positive_pageSize_def)
  show ?thesis unfolding consistent_def using f s p g o by blast
qed

lemma consistent_hidden_eq:
  "consistent P (t \<lparr> state := (state t) \<lparr> hiddenColumns := h \<rparr> \<rparr>) = consistent P t"
  by (simp add: consistent_def cong: option.case_cong)

lemma consistent_hidden:
  "consistent P t \<Longrightarrow> consistent P (t \<lparr> state := (state t) \<lparr> hiddenColumns := h \<rparr> \<rparr>)"
  by (simp only: consistent_hidden_eq)

lemma initPagination_positive:
  assumes "case opt_pagination opts of
             PaginationConfig page' (Some s) pageSizeOptions' \<Rightarrow> 0 < s | _ \<Rightarrow> True"
  shows "positive_pageSize (initPagination opts)"
  using assms
  by (auto simp add: initPagination_def positive_pageSize_def cps_fields
      split: PaginationOption.splits bool.splits option.splits)

lemma new_LiteTable_consistent:
  assumes "case opt_pagination opts of
             PaginationConfig page' (Some s) pageSizeOptions' \<Rightarrow> 0 < s | _ \<Rightarrow> True"
  shows "consistent P (new_LiteTable P opts)"
  unfolding new_LiteTable_def Let_def
  using initPagination_positive [OF assms]
  by (intro processData_consistent) (simp_all add: createInitialState_def)

lemma mutate_consistent:
  assumes "consistent P t" and "positive_size m"
  shows "consistent P (mutate P t m)"
proof -
  note pos = consistent_positive [OF assms(1)]
  show ?thesis
  proof (cases m)
    case (SortBy c d)
    show ?thesis unfolding SortBy mutate.simps sortBy_def Let_def
      using assms(1) pos
      by (auto split: option.split intro!: processData_consistent)
  next
    case ClearSort
    show ?thesis unfolding ClearSort mutate.simps clearSort_def
      using pos by (intro processData_consistent) simp_all
  next
    case (Search tm)
    show ?thesis unfolding Search mutate.simps search_def Let_def
      using pos
      by (intro processData_consistent)
        (auto simp add: positive_pageSize_def split: option.splits)
  next
    case (GoToPage n)
    show ?thesis unfolding GoToPage mutate.simps goToPage_def Let_def
      using assms(1) pos
      by (auto simp add: positive_pageSize_def cps_fields split: option.splits
          intro!: processData_consistent)
  next
    case NextPage
    show ?thesis unfolding NextPage mutate.simps nextPage_def goToPage_def Let_def
      using assms(1) pos
      by (auto simp add: positive_pageSize_def cps_fields split: option.splits
          intro!: processData_consistent)
  next
    case PrevPage
    show ?thesis unfolding PrevPage mutate.simps prevPage_def goToPage_def Let_def
      using assms(1) pos
      by (auto simp add: positive_pageSize_def cps_fields split: option.splits
          intro!: processData_consistent)
  next
    case (SetPageSize n)
    then have n: "0 < n" using assms(2) by simp
    show ?thesis unfolding SetPageSize mutate.simps setPageSize_def Let_def
      using assms(1) pos n
      by (auto simp add: positive_pageSize_def cps_fields split: option.splits
          intro!: processData_consistent)
  next
    case (ToggleColumn c)
    show ?thesis unfolding ToggleColumn mutate.simps toggleColumn_def
      using assms(1) by (simp add: consistent_hidden)
  next
    case (ShowColumn c)
    show ?thesis unfolding ShowColumn mutate.simps showColumn_def
      using assms(1) by (simp add: consistent_hidden)
  next
    case (HideColumn c)
    show ?thesis unfolding HideColumn mutate.simps hideColumn_def
      using assms(1) by (simp add: consistent_hidden)
  next
    case Reset
    show ?thesis unfolding Reset mutate.simps reset_def
      using pos by (intro processData_consistent) (simp_all add: createInitialState_def)
  next
    case (SetData rows)
    show ?thesis unfolding SetData mutate.simps setData_def
      using pos by (intro processData_consistent) simp_all
  qed
qed

lemma foldl_mutate_consistent:
  "consistent P t \<Longrightarrow> list_all positive_size ms \<Longrightarrow> consistent P (foldl (mutate P) t ms)"
  by (induction ms arbitrary: t) (simp_all add: mutate_consistent)

lemma run_mutations_consistent:
  assumes "positive_sizes opts ms"
  shows "consistent P (run_mutations P opts ms)"
proof -
  have a: "case opt_pagination opts of
             PaginationConfig page' (Some s) pageSizeOptions' \<Rightarrow> 0 < s | _ \<Rightarrow> True"
    and b: "list_all positive_size ms"
    using assms by (simp_all add: positive_sizes_def)
  show ?thesis unfolding run_mutations_def
    using new_LiteTable_consistent [OF a] b by (rule foldl_mutate_consistent)
qed

lemma mutate_options: "options (mutate P t m) = options t"
  by (cases m)
    (simp_all add: sortBy_def clearSort_def search_def goToPage_def nextPage_def prevPage_def
      setPageSize_def toggleColumn_def showColumn_def hideColumn_def reset_def setData_def
      processData_options Let_def split: option.split)

lemma foldl_mutate_options: "options (foldl (mutate P) t ms) = options t"
  by (induction ms arbitrary: t) (simp_all add: mutate_options)


section \<open>Table engine: the pipeline against its reference\<close>

lemma filterData_spec: "filterData opts rows tm = spec_filter opts tm rows"
  by (simp add: filterData_def spec_filter_def)

lemma spec_comparator_eq:
  "spec_comparator P col d =
     (\<lambda>a b. case sortFn col of
               Some f \<Rightarrow> f a b d
             | None \<Rightarrow> compareValues P (getCellValue a col) (getCellValue b col) d)"
  by (intro ext) (simp add: spec_comparator_def)

text \<open>
  The sort stage of the code is the reference sort stage whenever the column id of the sort
  state is not the empty string and comes with a direction.
\<close>

lemma sortData_spec:
  assumes "columnId s \<noteq> Some []" and "columnId s = None \<or> direction s \<noteq> None"
  shows "sortData P opts rows s = spec_sort P opts s rows"
proof (cases "columnId s")
  case None
  then show ?thesis by (simp add: sortData_def spec_sort_def spec_sort_column_def)
next
  case c: (Some c)
  have ne: "c \<noteq> []" using assms(1) c by simp
  obtain d where d: "direction s = Some d" using assms(2) c by auto
  show ?thesis
  proof (cases "find (\<lambda>col. idC col = c) (columns opts)")
    case None
    then show ?thesis using c d ne
      by (simp add: sortData_def spec_sort_def spec_sort_column_def)
  next
    case (Some col)
    then show ?thesis using c d ne
      by (simp add: sortData_def spec_sort_def spec_sort_column_def spec_comparator_eq
          cong: option.case_cong)
  qed
qed

lemma Array_slice_take_drop:
  "0 \<le> s \<Longrightarrow> s \<le> e \<Longrightarrow> e \<le> int (length xs) \<Longrightarrow>
     Array_slice xs s e = take (nat (e - s)) (drop (nat s) xs)"
  by (simp add: Array_slice_def Let_def)

lemma take_page:
  assumes "0 \<le> s" and "s \<le> int (length xs)" and "0 < k"
  shows "take (nat (min (s + k) (int (length xs)) - s)) (drop (nat s) xs) =
         take (nat k) (drop (nat s) xs)"
proof (cases "s + k \<le> int (length xs)")
  case True
  then show ?thesis by simp
next
  case False
  then have m: "min (s + k) (int (length xs)) = int (length xs)" by simp
  have l: "length (drop (nat s) xs) = nat (int (length xs) - s)"
    using assms(1) by simp
  have 1: "take (nat (int (length xs) - s)) (drop (nat s) xs) = drop (nat s) xs"
    using l by simp
  have "length (drop (nat s) xs) \<le> nat k" using False assms(1) by simp
  then have 2: "take (nat k) (drop (nat s) xs) = drop (nat s) xs" by simp
  show ?thesis by (simp only: m 1 2)
qed

lemma paginateData_spec:
  assumes "0 < pageSize p"
    and "p = createPaginationState (page p) (pageSize p) (int (length rows)) ol"
  shows "paginateData rows (Some p) = spec_paginate (Some (page p, pageSize p)) rows"
proof -
  define k where "k = pageSize p"
  define n where "n = int (length rows)"
  define q where "q = createPaginationState (page p) k n ol"
  have pq: "p = q" using assms(2) by (simp add: q_def k_def n_def)
  have k: "0 < k" using assms(1) by (simp add: k_def)
  have n: "0 \<le> n" by (simp add: n_def)
  have b: "0 \<le> startIndex q" "startIndex q \<le> endIndex q" "endIndex q \<le> n"
    unfolding q_def using cps_slice_bounds [OF k n] by simp_all
  have st: "startIndex q = (page q - 1) * k" by (simp add: q_def cps_fields)
  have en: "endIndex q = min (startIndex q + k) n" by (simp add: q_def cps_fields)
  have pg: "page q = min (max 1 (page p)) (max 1 (Math_ceil_div n k))"
    by (simp add: q_def cps_page)
  have sn: "startIndex q \<le> n" using b by linarith
  have "paginateData rows (Some q) = Array_slice rows (startIndex q) (endIndex q)"
    by (simp add: paginateData_def)
  also have "\<dots> = take (nat (endIndex q - startIndex q)) (drop (nat (startIndex q)) rows)"
    using b by (intro Array_slice_take_drop) (simp_all add: n_def)
  also have "\<dots> = take (nat k) (drop (nat (startIndex q)) rows)"
    unfolding en n_def using take_page [OF b(1) _ k, of rows] sn by (simp add: n_def)
  finally have lhs: "paginateData rows (Some q) = take (nat k) (drop (nat (startIndex q)) rows)" .
  have "spec_paginate (Some (page p, k)) rows =
      take (nat k) (drop (nat ((min (max 1 (page p)) (max 1 (Math_ceil_div n k)) - 1) * k)) rows)"
    by (simp add: spec_paginate_def Let_def ceil_div_real n_def)
  also have "\<dots> = take (nat k) (drop (nat (startIndex q)) rows)"
    by (simp only: st pg)
  finally have rhs: "spec_paginate (Some (page p, k)) rows =
      take (nat k) (drop (nat (startIndex q)) rows)" .
  have "paginateData rows (Some q) = spec_paginate (Some (page p, k)) rows"
    by (simp only: lhs rhs)
  then show ?thesis by (simp only: pq [symmetric] k_def)
qed

lemma consistent_getRows:
  assumes "consistent P t"
    and "columnId (sortState (state t)) \<noteq> Some []"
    and "columnId (sortState (state t)) = None \<or> direction (sortState (state t)) \<noteq> None"
  shows "getRows t =
     spec_paginate (map_option (\<lambda>p. (page p, pageSize p)) (paginationState (getState t)))
       (spec_sort P (options t) (sortState (getState t))
          (spec_filter (options t) (searchTerm (getState t)) (originalData (getState t))))"
proof -
  have f: "filteredData (state t) =
      spec_filter (options t) (searchTerm (state t)) (originalData (state t))"
    using assms(1) unfolding consistent_def filterData_spec by blast
  have "sortedData (state t) =
      sortData P (options t) (filteredData (state t)) (sortState (state t))"
    using assms(1) unfolding consistent_def by blast
  then have s: "sortedData (state t) =
      spec_sort P (options t) (sortState (state t)) (filteredData (state t))"
    by (simp only: sortData_spec [OF assms(2,3)])
  have g: "paginatedData (state t) = paginateData (sortedData (state t)) (paginationState (state t))"
    using assms(1) unfolding consistent_def by blast
  have "paginateData (sortedData (state t)) (paginationState (state t)) =
      spec_paginate (map_option (\<lambda>p. (page p, pageSize p)) (paginationState (state t)))
        (sortedData (state t))"
  proof (cases "paginationState (state t)")
    case None
    then show ?thesis by (simp add: paginateData_def spec_paginate_def)
  next
    case (Some p)
    have "case paginationState (state t) of
        None \<Rightarrow> True
      | Some p \<Rightarrow> 0 < pageSize p \<and>
          p = createPaginationState (page p) (pageSize p)
                (int (length (sortedData (state t)))) (Some (pageSizeOptions p))"
      using assms(1) unfolding consistent_def by blast
    then have "0 < pageSize p"
      and "p = createPaginationState (page p) (pageSize p)
                 (int (length (sortedData (state t)))) (Some (pageSizeOptions p))"
      using Some by simp_all
    then have "paginateData (sortedData (state t)) (Some p) =
        spec_paginate (Some (page p, pageSize p)) (sortedData (state t))"
      by (rule paginateData_spec)
    then show ?thesis using Some by simp
  qed
  then show ?thesis
    unfolding getRows_def getState_def g
    by (simp only: s [symmetric] f [symmetric])
qed

text \<open>
  Where the pipeline does agree with its reference: after any calls of the public mutators
  with positive page sizes, provided the sort state then names no column by the empty
  string and has a direction whenever it has a column.
\<close>

lemma pipeline_reference:
  assumes "positive_sizes opts ms" and "t = run_mutations P opts ms"
    and "columnId (sortState (state t)) \<noteq> Some []"
    and "columnId (sortState (state t)) = None \<or> direction (sortState (state t)) \<noteq> None"
  shows "getRows t =
     spec_paginate (map_option (\<lambda>p. (page p, pageSize p)) (paginationState (getState t)))
       (spec_sort P (options t) (sortState (getState t))
          (spec_filter (options t) (searchTerm (getState t)) (originalData (getState t))))"
proof -
  have "consistent P t"
    unfolding assms(2) using assms(1) by (rule run_mutations_consistent)
  then show ?thesis using assms(3,4) by (rule consistent_getRows)
qed

lemma blank_table_fields:
  "options (run_mutations test_platform blank_options [SortBy [] None]) =
     options (new_LiteTable test_platform blank_options)"
  unfolding run_mutations_def by (rule foldl_mutate_options)

lemma blank_table_state:
  "sortState (getState (run_mutations test_platform blank_options [SortBy [] None])) =
     \<lparr> columnId = Some [], direction = Some Asc \<rparr>"
  "searchTerm (getState (run_mutations test_platform blank_options [SortBy [] None])) = []"
  "originalData (getState (run_mutations test_platform blank_options [SortBy [] None])) =
     [person 1 ''Bob'' (JNumber 30), person 3 ''Carol'' (JNumber 25)]"
  "paginationState (getState (run_mutations test_platform blank_options [SortBy [] None])) = None"
  "getRows (run_mutations test_platform blank_options [SortBy [] None]) =
     [person 1 ''Bob'' (JNumber 30), person 3 ''Carol'' (JNumber 25)]"
  by code_simp+

lemma blank_table_reference:
  "spec_paginate None
     (spec_sort test_platform (options (new_LiteTable test_platform blank_options))
        \<lparr> columnId = Some [], direction = Some Asc \<rparr>
        (spec_filter (options (new_LiteTable test_platform blank_options)) []
           [person 1 ''Bob'' (JNumber 30), person 3 ''Carol'' (JNumber 25)])) =
     [person 3 ''Carol'' (JNumber 25), person 1 ''Bob'' (JNumber 30)]"
  by code_simp

text \<open>
  C1.  The pipeline-order property asks that \<open>getRows()\<close> be the reference pagination of
  the reference sort of the reference filter of \<open>originalData\<close> for every column set.  Take
  a table whose sortable column has the empty string as id, and call \<open>sortBy('')\<close>.
  \<open>sortBy\<close> finds the column and records the sort state \<open>{'', 'asc'}\<close>, but
  \<open>sortData\<close> tests \<open>!columnId\<close>, which holds for the empty string as it does for
  \<open>null\<close>, and returns the rows as they are: \<open>getRows()\<close> is Bob (30), Carol (25), while
  the reference sort of the filtered rows at that sort state is Carol (25), Bob (30).
\<close>

theorem C1_blank_column_not_sorted:
  "sortState (getState (run_mutations test_platform blank_options [SortBy [] None])) =
     \<lparr> columnId = Some [], direction = Some Asc \<rparr> \<and>
   getRows (run_mutations test_platform blank_options [SortBy [] None]) =
     [person 1 ''Bob'' (JNumber 30), person 3 ''Carol'' (JNumber 25)] \<and>
   spec_paginate
     (map_option (\<lambda>p. (page p, pageSize p))
        (paginationState (getState (run_mutations test_platform blank_options [SortBy [] None]))))
     (spec_sort test_platform
        (options (run_mutations test_platform blank_options [SortBy [] None]))
        (sortState (getState (run_mutations test_platform blank_options [SortBy [] None])))
        (spec_filter (options (run_mutations test_platform blank_options [SortBy [] None]))
           (searchTerm (getState (run_mutations test_platform blank_options [SortBy [] None])))
           (originalData (getState
              (run_mutations test_platform blank_options [SortBy [] None]))))) =
     [person 3 ''Carol'' (JNumber 25), person 1 ''Bob'' (JNumber 30)] \<and>
   [person 1 ''Bob'' (JNumber 30), person 3 ''Carol'' (JNumber 25)] \<noteq>
     [person 3 ''Carol'' (JNumber 25), person 1 ''Bob'' (JNumber 30)]"
proof -
  have ne: "[person 1 ''Bob'' (JNumber 30), person 3 ''Carol'' (JNumber 25)] \<noteq>
     [person 3 ''Carol'' (JNumber 25), person 1 ''Bob'' (JNumber 30)]"
    by (simp add: person_def)
  have r: "spec_paginate
     (map_option (\<lambda>p. (page p, pageSize p))
        (paginationState (getState (run_mutations test_platform blank_options [SortBy [] None]))))
     (spec_sort test_platform
        (options (run_mutations test_platform blank_options [SortBy [] None]))
        (sortState (getState (run_mutations test_platform blank_options [SortBy [] None])))
        (spec_filter (options (run_mutations test_platform blank_options [SortBy [] None]))
           (searchTerm (getState (run_mutations test_platform blank_options [SortBy [] None])))
           (originalData (getState
              (run_mutations test_platform blank_options [SortBy [] None]))))) =
     [person 3 ''Carol'' (JNumber 25), person 1 ''Bob'' (JNumber 30)]"
    by (simp only: blank_table_fields blank_table_state(1-4) option.map blank_table_reference)
  from blank_table_state(1) blank_table_state(5) r ne show ?thesis by (intro conjI)
qed


section \<open>Table engine: pagination state\<close>

lemma consistent_pagination:
  assumes "consistent P t" and "paginationState (state t) = Some p"
  shows "0 < pageSize p"
    and "p = createPaginationState (page p) (pageSize p)
               (int (length (sortedData (state t)))) (Some (pageSizeOptions p))"
proof -
  have "case paginationState (state t) of
        None \<Rightarrow> True
      | Some p \<Rightarrow> 0 < pageSize p \<and>
          p = createPaginationState (page p) (pageSize p)
                (int (length (sortedData (state t)))) (Some (pageSizeOptions p))"
    using assms(1) unfolding consistent_def by blast
  then show "0 < pageSize p"
    and "p = createPaginationState (page p) (pageSize p)
               (int (length (sortedData (state t)))) (Some (pageSizeOptions p))"
    using assms(2) by simp_all
qed

lemma consistent_pagination_invariant:
  assumes "consistent P t" and "paginationState (state t) = Some p"
  shows "pagination_invariant p (int (length (sortedData (state t))))"
proof -
  note c = consistent_pagination [OF assms]
  have "pagination_invariant
      (createPaginationState (page p) (pageSize p)
         (int (length (sortedData (state t)))) (Some (pageSizeOptions p)))
      (int (length (sortedData (state t))))"
    using c(1) by (intro cps_invariant) simp_all
  then show ?thesis using c(2) by simp
qed

lemma consistent_sortedData:
  assumes "consistent P t"
  shows "sortData P (options t)
           (filterData (options t) (originalData (state t)) (searchTerm (state t)))
           (sortState (state t)) = sortedData (state t)"
proof -
  have f: "filteredData (state t) =
      filterData (options t) (originalData (state t)) (searchTerm (state t))"
    and s: "sortedData (state t) =
      sortData P (options t) (filteredData (state t)) (sortState (state t))"
    using assms unfolding consistent_def by blast+
  show ?thesis by (simp only: s f [symmetric])
qed

lemma clamp_cases:
  "(1::int) \<le> T \<Longrightarrow> min (max 1 g) T = (if g < 1 then 1 else if T < g then T else g)"
  by simp

lemma goToPage_clamps:
  assumes "consistent P t" and "paginationState (state t) = Some p"
  shows "\<exists>p'. paginationState (state (goToPage P g t)) = Some p' \<and>
           totalPages p' = totalPages p \<and>
           page p' = (if g < 1 then 1 else if totalPages p < g then totalPages p else g)"
proof -
  define k where "k = pageSize p"
  define n where "n = int (length (sortedData (state t)))"
  define T where "T = max 1 (Math_ceil_div n k)"
  define l where "l = pageSizeOptions p"
  have pe: "p = createPaginationState (page p) k n (Some l)"
    using consistent_pagination(2) [OF assms] by (simp add: k_def n_def l_def)
  have tp: "totalPages p = T"
    using arg_cong [OF pe, of totalPages] by (simp add: cps_fields T_def)
  have T: "1 \<le> T" by (simp add: T_def)
  define p1 where "p1 = createPaginationState (min (max 1 g) T) k n (Some l)"
  define t1 where "t1 = t \<lparr> state := (state t) \<lparr> paginationState := Some p1 \<rparr> \<rparr>"
  have g1: "goToPage P g t = processData P t1"
    using assms(2) by (simp add: goToPage_def Let_def p1_def t1_def tp k_def n_def l_def)
  have ps1: "paginationState (state t1) = Some p1" by (simp add: t1_def)
  have sd: "sortedData (state (processData P t1)) = sortedData (state t)"
    using consistent_sortedData [OF assms(1)] by (simp add: processData_derived t1_def)
  have p1f: "pageSize p1 = k" "pageSizeOptions p1 = l" "totalPages p1 = T"
    "page p1 = min (max 1 g) T"
    by (simp_all add: p1_def cps_fields cps_page T_def [symmetric] clamp_idem [OF T])
  have "paginationState (state (processData P t1)) =
      Some (createPaginationState (page p1) (pageSize p1) n (Some (pageSizeOptions p1)))"
    by (simp add: processData_pagination [of P t1] ps1 sd n_def)
  also have "createPaginationState (page p1) (pageSize p1) n (Some (pageSizeOptions p1)) = p1"
    unfolding p1f(1,2) unfolding p1_def by (rule cps_idem)
  finally have "paginationState (state (goToPage P g t)) = Some p1" by (simp add: g1)
  moreover have "totalPages p1 = totalPages p" by (simp add: p1f tp)
  moreover have "page p1 = (if g < 1 then 1 else if totalPages p < g then totalPages p else g)"
    by (simp only: p1f tp clamp_cases [OF T])
  ultimately show ?thesis by blast
qed

text \<open>
  C5.  For a positive page size \<open>k\<close> and \<open>n \<ge> 0\<close> rows the descriptor that
  \<open>createPaginationState\<close> builds has \<open>totalPages = max(1, ceil(n / k))\<close>, its page is the
  requested page clamped into \<open>[1, totalPages]\<close>, and \<open>0 \<le> startIndex \<le> endIndex \<le> n\<close>;
  for \<open>n = 0\<close> it has \<open>totalPages = 1\<close> and \<open>startIndex = endIndex = 0\<close>.  On a table
  reached by any sequence of mutators (page sizes positive) the pagination state satisfies
  this invariant over the sorted rows, and \<open>goToPage(g)\<close> leaves \<open>totalPages\<close> as it is and
  sets the page to 1 for \<open>g < 1\<close>, to \<open>totalPages\<close> for \<open>g > totalPages\<close>, and to \<open>g\<close>
  otherwise.
\<close>

theorem C5_pagination_clamped:
  assumes "0 < k" and "0 \<le> n"
    and "positive_sizes opts ms" and "t = run_mutations P opts ms"
    and "paginationState (state t) = Some p"
  shows "pagination_invariant (createPaginationState pg k n ol) n \<and>
         page (createPaginationState pg k n ol) =
           (if pg < 1 then 1
            else if totalPages (createPaginationState pg k n ol) < pg
                 then totalPages (createPaginationState pg k n ol)
                 else pg) \<and>
         totalPages (createPaginationState pg k 0 ol) = 1 \<and>
         startIndex (createPaginationState pg k 0 ol) = 0 \<and>
         endIndex (createPaginationState pg k 0 ol) = 0 \<and>
         pagination_invariant p (int (length (sortedData (state t)))) \<and>
         (\<exists>p'. paginationState (state (goToPage P g t)) = Some p' \<and>
           totalPages p' = totalPages p \<and>
           page p' = (if g < 1 then 1 else if totalPages p < g then totalPages p else g))"
proof -
  have c: "consistent P t"
    unfolding assms(4) using assms(3) by (rule run_mutations_consistent)
  have T: "1 \<le> max 1 (Math_ceil_div n k)" by simp
  have 1: "pagination_invariant (createPaginationState pg k n ol) n"
    using assms(1,2) by (rule cps_invariant)
  have 2: "page (createPaginationState pg k n ol) =
           (if pg < 1 then 1
            else if totalPages (createPaginationState pg k n ol) < pg
                 then totalPages (createPaginationState pg k n ol)
                 else pg)"
    unfolding cps_page cps_fields by (rule clamp_cases [OF T])
  note 3 = cps_empty [OF assms(1), of pg ol]
  note 4 = consistent_pagination_invariant [OF c assms(5)]
  note 5 = goToPage_clamps [OF c assms(5), of g]
  show ?thesis using 1 2 3(1,3,4) 4 5 by (intro conjI)
qed

lemma people_paged_positive: "positive_sizes people_options [SetPageSize 2]"
  by (simp add: positive_sizes_def people_options_def)

lemma people_paged_state:
  "paginationState (state (run_mutations test_platform people_options [SetPageSize 2])) =
     Some \<lparr> page = 1, pageSize = 2, pageSizeOptions = [10, 25, 50, 100], totalRows = 5,
            totalPages = 3, startIndex = 0, endIndex = 2, hasPrevPage = False,
            hasNextPage = True \<rparr>"
  "sortedData (state (run_mutations test_platform people_options [SetPageSize 2])) = people"
  by code_simp+

theorem C5_pagination_clamped_witness:
  "pagination_invariant (createPaginationState 7 2 5 None) 5 \<and>
   page (createPaginationState 7 2 5 None) = 3 \<and>
   totalPages (createPaginationState 7 2 0 None) = 1 \<and>
   startIndex (createPaginationState 7 2 0 None) = 0 \<and>
   endIndex (createPaginationState 7 2 0 None) = 0 \<and>
   pagination_invariant
     \<lparr> page = 1, pageSize = 2, pageSizeOptions = [10, 25, 50, 100], totalRows = 5,
       totalPages = 3, startIndex = 0, endIndex = 2, hasPrevPage = False, hasNextPage = True \<rparr>
     5 \<and>
   (\<exists>p'. paginationState (state (goToPage test_platform 9
             (run_mutations test_platform people_options [SetPageSize 2]))) = Some p' \<and>
         totalPages p' = 3 \<and> page p' = 3)"
proof -
  have k: "(0::int) < 2" and n: "(0::int) \<le> 5" by simp_all
  have tp: "totalPages (createPaginationState 7 2 5 None) = 3"
    by (simp add: cps_fields Math_ceil_div_def)
  have len: "int (length people) = 5" by (simp add: people_def)
  show ?thesis
    using C5_pagination_clamped [OF k n people_paged_positive refl people_paged_state(1),
        where pg = 7 and ol = None and g = 9]
    by (simp add: tp people_paged_state(2) len)
qed


section \<open>Table engine: sorting, reset and row lookup\<close>

lemma sortBy_sortState:
  assumes "find (\<lambda>col. idC col = x) (columns (options t)) = Some col"
    and "sortable col \<noteq> Some False"
  shows "sortState (state (sortBy P x d t)) =
     \<lparr> columnId = Some x,
       direction = Some (case d of
                           Some d' \<Rightarrow> d'
                         | None \<Rightarrow>
                             if columnId (sortState (state t)) = Some x
                             then (if direction (sortState (state t)) = Some Asc then Desc else Asc)
                             else Asc) \<rparr>"
  using assms by (simp add: sortBy_def Let_def processData_kept split: option.split)

lemma sortBy_options: "options (sortBy P x d t) = options t"
  using mutate_options [of P t "SortBy x d"] by simp

text \<open>
  For a column \<open>x\<close> that exists and is not marked unsortable, \<open>sortBy(x)\<close> without a
  direction sorts ascending when \<open>x\<close> is not the column currently sorted by, and otherwise
  turns ascending into descending and anything else into ascending; the sort state it
  leaves is never the unsorted one.  Three calls in a row, starting from a table not
  sorted by \<open>x\<close>, give ascending, descending, ascending.
\<close>

lemma sortBy_toggle:
  assumes "find (\<lambda>col. idC col = x) (columns (options t)) = Some col"
    and "sortable col \<noteq> Some False"
  shows "(columnId (sortState (state t)) \<noteq> Some x \<longrightarrow>
            sortState (state (sortBy P x None t)) = \<lparr> columnId = Some x, direction = Some Asc \<rparr>) \<and>
         (columnId (sortState (state t)) = Some x \<longrightarrow>
            sortState (state (sortBy P x None t)) =
              \<lparr> columnId = Some x,
                direction = Some (if direction (sortState (state t)) = Some Asc
                                  then Desc else Asc) \<rparr>) \<and>
         sortState (state (sortBy P x None t)) \<noteq> \<lparr> columnId = None, direction = None \<rparr> \<and>
         (columnId (sortState (state t)) \<noteq> Some x \<longrightarrow>
            direction (sortState (state (sortBy P x None t))) = Some Asc \<and>
            direction (sortState (state (sortBy P x None (sortBy P x None t)))) = Some Desc \<and>
            direction (sortState (state
              (sortBy P x None (sortBy P x None (sortBy P x None t))))) = Some Asc)"
proof -
  let ?t1 = "sortBy P x None t"
  let ?t2 = "sortBy P x None ?t1"
  let ?t3 = "sortBy P x None ?t2"
  have f1: "find (\<lambda>col. idC col = x) (columns (options ?t1)) = Some col"
    using assms(1) by (simp add: sortBy_options)
  have f2: "find (\<lambda>col. idC col = x) (columns (options ?t2)) = Some col"
    using assms(1) by (simp add: sortBy_options)
  have s1: "sortState (state ?t1) =
      \<lparr> columnId = Some x,
        direction = Some (if columnId (sortState (state t)) = Some x
                          then (if direction (sortState (state t)) = Some Asc then Desc else Asc)
                          else Asc) \<rparr>"
    using sortBy_sortState [OF assms, of P None] by simp
  have s2: "sortState (state ?t2) =
      \<lparr> columnId = Some x,
        direction = Some (if direction (sortState (state ?t1)) = Some Asc then Desc else Asc) \<rparr>"
    using sortBy_sortState [OF f1 assms(2), of P None] by (simp add: s1)
  have s3: "sortState (state ?t3) =
      \<lparr> columnId = Some x,
        direction = Some (if direction (sortState (state ?t2)) = Some Asc then Desc else Asc) \<rparr>"
    using sortBy_sortState [OF f2 assms(2), of P None] by (simp add: s2)
  have a: "columnId (sortState (state t)) \<noteq> Some x \<longrightarrow>
      sortState (state ?t1) = \<lparr> columnId = Some x, direction = Some Asc \<rparr>"
    by (simp add: s1)
  have b: "columnId (sortState (state t)) = Some x \<longrightarrow>
      sortState (state ?t1) =
        \<lparr> columnId = Some x,
          direction = Some (if direction (sortState (state t)) = Some Asc then Desc else Asc) \<rparr>"
    by (simp add: s1)
  have c: "sortState (state ?t1) \<noteq> \<lparr> columnId = None, direction = None \<rparr>"
    by (simp add: s1)
  have d: "columnId (sortState (state t)) \<noteq> Some x \<longrightarrow>
      direction (sortState (state ?t1)) = Some Asc \<and>
      direction (sortState (state ?t2)) = Some Desc \<and>
      direction (sortState (state ?t3)) = Some Asc"
    by (simp add: s3 s2 s1)
  from a b c d show ?thesis by (intro conjI)
qed

text \<open>
  After \<open>sortBy\<close> on a column that exists, is not marked unsortable and whose id is not
  the empty string, the sorted rows are the reference sort of the filtered rows at the
  new sort state.
\<close>

lemma sortBy_sorts:
  assumes "find (\<lambda>col. idC col = x) (columns (options t)) = Some col"
    and "sortable col \<noteq> Some False" and "x \<noteq> []"
  shows "getAllRows (sortBy P x d t) =
     spec_sort P (options t) (sortState (state (sortBy P x d t)))
       (spec_filter (options t) (searchTerm (state t)) (originalData (state t)))"
proof -
  define nd where "nd = (case d of
                           Some d' \<Rightarrow> d'
                         | None \<Rightarrow>
                             if columnId (sortState (state t)) = Some x
                             then (if direction (sortState (state t)) = Some Asc then Desc else Asc)
                             else Asc)"
  define t' where
    "t' = t \<lparr> state := (state t) \<lparr> sortState := \<lparr> columnId = Some x, direction = Some nd \<rparr> \<rparr> \<rparr>"
  have sb: "sortBy P x d t = processData P t'"
    using assms(1,2) by (simp add: sortBy_def Let_def t'_def nd_def split: option.split)
  have ss: "sortState (state (sortBy P x d t)) = \<lparr> columnId = Some x, direction = Some nd \<rparr>"
    by (simp add: sb processData_kept t'_def)
  have "sortedData (state (processData P t')) =
      sortData P (options t) (filterData (options t) (originalData (state t)) (searchTerm (state t)))
        \<lparr> columnId = Some x, direction = Some nd \<rparr>"
    by (simp add: processData_derived t'_def)
  also have "\<dots> = spec_sort P (options t) \<lparr> columnId = Some x, direction = Some nd \<rparr>
      (filterData (options t) (originalData (state t)) (searchTerm (state t)))"
    using assms(3) by (intro sortData_spec) simp_all
  finally show ?thesis
    by (simp only: getAllRows_def sb [symmetric] ss filterData_spec)
qed

lemma new_LiteTable_fields:
  "columns (options (new_LiteTable P opts)) = opt_columns opts"
  "sortState (state (new_LiteTable P opts)) =
     (case opt_defaultSort opts of
        None \<Rightarrow> \<lparr> columnId = None, direction = None \<rparr>
      | Some s \<Rightarrow> s)"
  by (simp_all add: new_LiteTable_def Let_def processData_options processData_kept
      createInitialState_def)

lemma blank_table_column:
  "map_option idC (find (\<lambda>col. idC col = [])
     (columns (options (new_LiteTable test_platform blank_options)))) = Some []"
  "map_option sortable (find (\<lambda>col. idC col = [])
     (columns (options (new_LiteTable test_platform blank_options)))) = Some (Some True)"
  "sortState (state (new_LiteTable test_platform blank_options)) =
     \<lparr> columnId = None, direction = None \<rparr>"
  by (simp_all add: new_LiteTable_fields blank_options_def blank_column_def)

lemma blank_table_sortBy:
  "sortState (state (sortBy test_platform [] None
     (new_LiteTable test_platform blank_options))) =
     \<lparr> columnId = Some [], direction = Some Asc \<rparr>"
  "getAllRows (sortBy test_platform [] None (new_LiteTable test_platform blank_options)) =
     [person 1 ''Bob'' (JNumber 30), person 3 ''Carol'' (JNumber 25)]"
  "0 < compareValues test_platform
         (getCellValue (person 1 ''Bob'' (JNumber 30)) blank_column)
         (getCellValue (person 3 ''Carol'' (JNumber 25)) blank_column) (Some Asc)"
  by code_simp+

text \<open>
  C7.  The toggle property asks that for every sortable column \<open>x\<close> a call \<open>sortBy(x)\<close>
  without direction sort ascending when \<open>x\<close> is not the column sorted by.  On a table
  whose sortable column has the empty string as id, and which is not sorted, \<open>sortBy('')\<close>
  finds the column and sets the direction to \<open>'asc'\<close>, yet the rows stay as they were,
  Bob (30) before Carol (25), although the ascending comparator puts Bob after Carol:
  \<open>sortData\<close> takes the empty column id for no column at all.
\<close>

theorem C7_blank_column_not_sorted_ascending:
  "map_option idC (find (\<lambda>col. idC col = [])
     (columns (options (new_LiteTable test_platform blank_options)))) = Some [] \<and>
   map_option sortable (find (\<lambda>col. idC col = [])
     (columns (options (new_LiteTable test_platform blank_options)))) = Some (Some True) \<and>
   sortState (state (new_LiteTable test_platform blank_options)) =
     \<lparr> columnId = None, direction = None \<rparr> \<and>
   sortState (state (sortBy test_platform [] None
     (new_LiteTable test_platform blank_options))) =
     \<lparr> columnId = Some [], direction = Some Asc \<rparr> \<and>
   getAllRows (sortBy test_platform [] None (new_LiteTable test_platform blank_options)) =
     [person 1 ''Bob'' (JNumber 30), person 3 ''Carol'' (JNumber 25)] \<and>
   0 < compareValues test_platform
         (getCellValue (person 1 ''Bob'' (JNumber 30)) blank_column)
         (getCellValue (person 3 ''Carol'' (JNumber 25)) blank_column) (Some Asc)"
  using blank_table_column blank_table_sortBy by (intro conjI)

lemma reset_originalData: "originalData (state (reset P t)) = data (options t)"
  by (simp add: reset_def processData_kept createInitialState_def)

lemma new_LiteTable_data: "data (options (new_LiteTable P opts)) = opt_data opts"
  by (simp add: new_LiteTable_def Let_def processData_options)

text \<open>
  C10.  \<open>setData(rows')\<close> makes \<open>rows'\<close> the original data, and \<open>reset()\<close> afterwards puts
  the array of the constructor's options back in its place: after any sequence of
  mutators, \<open>setData\<close> among them, \<open>reset()\<close> leaves \<open>originalData\<close> equal to the data the
  table was constructed with.  Indeed \<open>reset()\<close> rebuilds the whole state from the options:
  the table after it is the table the constructor returned.
\<close>

theorem C10_reset_restores_constructor_data:
  "originalData (state (setData P rows' t)) = rows' \<and>
   originalData (state (reset P (setData P rows' t))) = data (options t) \<and>
   data (options (run_mutations P opts ms)) = opt_data opts \<and>
   originalData (state (reset P (run_mutations P opts ms))) = opt_data opts \<and>
   originalData (state (run_mutations P opts (ms @ [SetData rows', Reset]))) = opt_data opts \<and>
   reset P (run_mutations P opts ms) = new_LiteTable P opts"
proof -
  have o: "options (run_mutations P opts ms) = options (new_LiteTable P opts)"
    unfolding run_mutations_def by (rule foldl_mutate_options)
  have 1: "originalData (state (setData P rows' t)) = rows'"
    by (simp add: setData_def processData_kept)
  have 2: "originalData (state (reset P (setData P rows' t))) = data (options t)"
    using mutate_options [of P t "SetData rows'"] by (simp add: reset_originalData)
  have 3: "data (options (run_mutations P opts ms)) = opt_data opts"
    by (simp add: o new_LiteTable_data)
  have 4: "originalData (state (reset P (run_mutations P opts ms))) = opt_data opts"
    by (simp add: reset_originalData 3)
  have "run_mutations P opts (ms @ [SetData rows', Reset]) =
      reset P (setData P rows' (run_mutations P opts ms))"
    by (simp add: run_mutations_def)
  then have 5: "originalData (state (run_mutations P opts (ms @ [SetData rows', Reset]))) =
      opt_data opts"
    using mutate_options [of P "run_mutations P opts ms" "SetData rows'"]
    by (simp add: reset_originalData 3)
  have r: "\<And>(t::LiteTable) s. t \<lparr> state := s \<rparr> = \<lparr> options = options t, state = s \<rparr>"
    by simp
  have "reset P (run_mutations P opts ms) =
      processData P \<lparr> options = options (new_LiteTable P opts),
                        state = createInitialState (options (new_LiteTable P opts)) \<rparr>"
    by (simp only: reset_def r o)
  also have "\<dots> = new_LiteTable P opts"
    by (simp add: new_LiteTable_def Let_def processData_options)
  finally have 6: "reset P (run_mutations P opts ms) = new_LiteTable P opts" .
  from 1 2 3 4 5 6 show ?thesis by (intro conjI)
qed

theorem C10_reset_restores_constructor_data_witness:
  "originalData (state (run_mutations test_platform people_options
      [Search ''o'', SetData twins])) = twins \<and>
   originalData (state (run_mutations test_platform people_options
      ([Search ''o''] @ [SetData twins, Reset]))) = people \<and>
   twins \<noteq> people"
proof -
  have a: "originalData (state (run_mutations test_platform people_options
      [Search ''o'', SetData twins])) = twins"
    using C10_reset_restores_constructor_data
      [of test_platform twins "run_mutations test_platform people_options [Search ''o'']"]
    by (simp add: run_mutations_def)
  have b: "originalData (state (run_mutations test_platform people_options
      ([Search ''o''] @ [SetData twins, Reset]))) = people"
    using C10_reset_restores_constructor_data
      [of test_platform twins _ people_options "[Search ''o'']"]
    by (simp add: people_options_def)
  have c: "twins \<noteq> people" by (simp add: twins_def people_def)
  from a b c show ?thesis by (intro conjI)
qed

lemma find_from_first:
  assumes "i < length xs" and "p (xs ! i) (k + i)" and "\<forall>j<i. \<not> p (xs ! j) (k + j)"
  shows "find_from k p xs = Some (xs ! i)"
  using assms
proof (induction xs arbitrary: i k)
  case Nil
  then show ?case by simp
next
  case (Cons a xs)
  show ?case
  proof (cases i)
    case 0
    then show ?thesis using Cons.prems(2) by simp
  next
    case (Suc i')
    have na: "\<not> p a k" using Cons.prems(3) Suc by force
    have 1: "i' < length xs" using Cons.prems(1) Suc by simp
    have 2: "p (xs ! i') (Suc k + i')" using Cons.prems(2) Suc by simp
    have 3: "\<forall>j<i'. \<not> p (xs ! j) (Suc k + j)"
    proof (intro allI impI)
      fix j assume "j < i'"
      then have "Suc j < i" using Suc by simp
      then have "\<not> p ((a # xs) ! Suc j) (k + Suc j)" using Cons.prems(3) by blast
      then show "\<not> p (xs ! j) (Suc k + j)" by simp
    qed
    have "find_from (Suc k) p xs = Some (xs ! i')" using Cons.IH [OF 1 2 3] .
    then show ?thesis using na Suc by simp
  qed
qed

lemma find_from_none:
  "(\<forall>j<length xs. \<not> p (xs ! j) (k + j)) \<Longrightarrow> find_from k p xs = None"
proof (induction xs arbitrary: k)
  case Nil
  then show ?case by simp
next
  case (Cons a xs)
  have na: "\<not> p a k" using Cons.prems by force
  have "\<forall>j<length xs. \<not> p (xs ! j) (Suc k + j)"
  proof (intro allI impI)
    fix j assume "j < length xs"
    then have "\<not> p ((a # xs) ! Suc j) (k + Suc j)" using Cons.prems by force
    then show "\<not> p (xs ! j) (Suc k + j)" by simp
  qed
  then have "find_from (Suc k) p xs = None" by (rule Cons.IH)
  then show ?case using na by simp
qed

text \<open>
  C8 (as stated).  Two rows with the same \<open>id\<close> 7 both derive the row id \<open>"7"\<close>, and
  \<open>getRowById("7")\<close> returns the first of them (index 0), not the later one.
\<close>

theorem C8_last_write_wins_counterexample:
  "generateRowId (twins ! 0) 0 = ''7'' \<and> generateRowId (twins ! 1) 1 = ''7'' \<and>
   getRowById ''7'' (new_LiteTable test_platform twins_options) = Some (twins ! 0) \<and>
   getRowById ''7'' (new_LiteTable test_platform twins_options) \<noteq> Some (twins ! 1)"
  by code_simp

text \<open>
  C8 (amended).  \<open>getRowById(id)\<close> scans \<open>originalData\<close> from the front and returns the
  first row, the one of lowest index, whose derived id equals \<open>id\<close>; it returns
  \<open>undefined\<close> when no row derives that id.
\<close>

theorem C8_getRowById_first_match:
  "(i < length (originalData (state t)) \<and>
    getRowId (options t) (originalData (state t) ! i) i = id' \<and>
    (\<forall>j<i. getRowId (options t) (originalData (state t) ! j) j \<noteq> id')
      \<longrightarrow> getRowById id' t = Some (originalData (state t) ! i)) \<and>
   ((\<forall>j<length (originalData (state t)).
       getRowId (options t) (originalData (state t) ! j) j \<noteq> id')
      \<longrightarrow> getRowById id' t = None)"
proof (intro conjI impI)
  assume a: "i < length (originalData (state t)) \<and>
    getRowId (options t) (originalData (state t) ! i) i = id' \<and>
    (\<forall>j<i. getRowId (options t) (originalData (state t) ! j) j \<noteq> id')"
  show "getRowById id' t = Some (originalData (state t) ! i)"
    unfolding getRowById_def Array_find_def
    using a by (intro find_from_first) simp_all
next
  assume "\<forall>j<length (originalData (state t)).
       getRowId (options t) (originalData (state t) ! j) j \<noteq> id'"
  then show "getRowById id' t = None"
    unfolding getRowById_def Array_find_def
    by (intro find_from_none) simp
qed

lemma twins_table:
  "originalData (state (new_LiteTable test_platform twins_options)) = twins"
  "getRowId (options (new_LiteTable test_platform twins_options)) = generateRowId"
  by (simp_all add: new_LiteTable_def Let_def processData_kept processData_options
      createInitialState_def twins_options_def people_options_def)

lemma twins_ids:
  "generateRowId (twins ! 0) 0 = ''7''" "generateRowId (twins ! 1) 1 = ''7''"
  "length twins = 2"
  by code_simp+

theorem C8_getRowById_first_match_witness:
  "getRowById ''7'' (new_LiteTable test_platform twins_options) = Some (twins ! 0) \<and>
   getRowById ''8'' (new_LiteTable test_platform twins_options) = None"
proof -
  have ne: "''7'' \<noteq> ''8''" by simp
  have a: "getRowById ''7'' (new_LiteTable test_platform twins_options) = Some (twins ! 0)"
    using C8_getRowById_first_match
      [of 0 "new_LiteTable test_platform twins_options" "''7''"]
    by (simp add: twins_table twins_ids)
  have "\<forall>j<length twins. generateRowId (twins ! j) j \<noteq> ''8''"
  proof (intro allI impI)
    fix j assume "j < length twins"
    then have "j = 0 \<or> j = 1" by (auto simp add: twins_ids(3))
    then show "generateRowId (twins ! j) j \<noteq> ''8''"
      using twins_ids(1,2) ne by auto
  qed
  then have b: "getRowById ''8'' (new_LiteTable test_platform twins_options) = None"
    using C8_getRowById_first_match
      [of 0 "new_LiteTable test_platform twins_options" "''8''"]
    by (simp add: twins_table)
  from a b show ?thesis by (intro conjI)
qed


section \<open>Default comparator: null values sort last\<close>

lemma compareValues_null:
  "isNullish a \<Longrightarrow> \<not> isNullish b \<Longrightarrow> compareValues P a b d = 1"
  "\<not> isNullish a \<Longrightarrow> isNullish b \<Longrightarrow> compareValues P a b d = - 1"
  by (simp_all add: compareValues_def)

lemma set_insert_sorted: "set (insert_sorted c x ys) = insert x (set ys)"
  by (induction ys) auto

lemma length_insert_sorted: "length (insert_sorted c x ys) = Suc (length ys)"
  by (induction ys) auto

lemma set_insertion_sort: "set (insertion_sort c xs) = set xs"
  by (induction xs) (simp_all add: set_insert_sorted)

lemma length_insertion_sort: "length (insertion_sort c xs) = length xs"
  by (induction xs) (simp_all add: length_insert_sorted)

lemma insert_sorted_nulls_last:
  assumes "sorted_wrt (\<lambda>a b. N a \<longrightarrow> N b) ys"
    and "\<forall>y\<in>set ys. (N x \<and> \<not> N y \<longrightarrow> 0 < c x y) \<and> (\<not> N x \<and> N y \<longrightarrow> c x y \<le> 0)"
  shows "sorted_wrt (\<lambda>a b. N a \<longrightarrow> N b) (insert_sorted c x ys)"
  using assms
proof (induction ys)
  case Nil
  show ?case by simp
next
  case (Cons y ys)
  have sy: "\<forall>z\<in>set ys. N y \<longrightarrow> N z"
    using Cons.prems(1) by (simp only: sorted_wrt.simps; blast?)
  have ss: "sorted_wrt (\<lambda>a b. N a \<longrightarrow> N b) ys"
    using Cons.prems(1) by (simp only: sorted_wrt.simps; blast?)
  have cy: "(N x \<and> \<not> N y \<longrightarrow> 0 < c x y) \<and> (\<not> N x \<and> N y \<longrightarrow> c x y \<le> 0)"
    using Cons.prems(2) by (simp only: list.set; blast?)
  have cs: "\<forall>z\<in>set ys. (N x \<and> \<not> N z \<longrightarrow> 0 < c x z) \<and> (\<not> N x \<and> N z \<longrightarrow> c x z \<le> 0)"
    using Cons.prems(2) by (simp only: list.set; blast?)
  show ?case
  proof (cases "c x y \<le> 0")
    case True
    have xy: "N x \<longrightarrow> N y" using cy True by linarith
    have xz: "\<forall>z\<in>set (y # ys). N x \<longrightarrow> N z" using xy sy by (simp only: list.set; blast?)
    have "sorted_wrt (\<lambda>a b. N a \<longrightarrow> N b) (x # y # ys)"
      using xz Cons.prems(1) by (subst sorted_wrt.simps) (rule conjI)
    then show ?thesis using True by (simp only: insert_sorted.simps if_True)
  next
    case False
    have yx: "N y \<longrightarrow> N x" using cy False by linarith
    have ih: "sorted_wrt (\<lambda>a b. N a \<longrightarrow> N b) (insert_sorted c x ys)"
      using Cons.IH [OF ss cs] .
    have yz: "\<forall>z\<in>set (insert_sorted c x ys). N y \<longrightarrow> N z"
      using yx sy by (simp only: set_insert_sorted; blast?)
    have "sorted_wrt (\<lambda>a b. N a \<longrightarrow> N b) (y # insert_sorted c x ys)"
      using yz ih by (subst sorted_wrt.simps) (rule conjI)
    then show ?thesis using False by (simp only: insert_sorted.simps if_False)
  qed
qed

lemma insertion_sort_nulls_last:
  assumes "\<forall>x\<in>set xs. \<forall>y\<in>set xs.
             (N x \<and> \<not> N y \<longrightarrow> 0 < c x y) \<and> (\<not> N x \<and> N y \<longrightarrow> c x y \<le> 0)"
  shows "sorted_wrt (\<lambda>a b. N a \<longrightarrow> N b) (insertion_sort c xs)"
  using assms
proof (induction xs)
  case Nil
  show ?case by simp
next
  case (Cons x xs)
  have sub: "\<forall>x\<in>set xs. \<forall>y\<in>set xs.
             (N x \<and> \<not> N y \<longrightarrow> 0 < c x y) \<and> (\<not> N x \<and> N y \<longrightarrow> c x y \<le> 0)"
    using Cons.prems by (simp only: list.set; blast?)
  have ih: "sorted_wrt (\<lambda>a b. N a \<longrightarrow> N b) (insertion_sort c xs)"
    using sub by (rule Cons.IH)
  have hd: "\<forall>y\<in>set (insertion_sort c xs).
      (N x \<and> \<not> N y \<longrightarrow> 0 < c x y) \<and> (\<not> N x \<and> N y \<longrightarrow> c x y \<le> 0)"
    using Cons.prems by (simp only: set_insertion_sort list.set; blast?)
  have "sorted_wrt (\<lambda>a b. N a \<longrightarrow> N b) (insert_sorted c x (insertion_sort c xs))"
    using ih hd by (rule insert_sorted_nulls_last)
  then show ?case by (simp only: insertion_sort.simps)
qed

lemma sortData_default:
  assumes "find (\<lambda>c. idC c = cid) (columns opts) = Some col"
    and "sortable col \<noteq> Some False" and "sortFn col = None" and "cid \<noteq> []"
  shows "sortData P opts rows \<lparr> columnId = Some cid, direction = Some d \<rparr> =
     insertion_sort
       (SortCompare (\<lambda>a b. compareValues P (getCellValue a col) (getCellValue b col) (Some d)))
       rows"
  using assms by (simp add: sortData_def Array_sort_def)

lemma lenient_table_sorted:
  "sortFn lenient_column = None"
  "map (\<lambda>row. getCellValue row lenient_column)
     (getAllRows (sortBy test_platform ''age'' (Some Asc)
        (new_LiteTable test_platform lenient_options))) = [JNumber 3, JNull, JNumber 0]"
  "map (\<lambda>row. getCellValue row lenient_column)
     (getAllRows (sortBy test_platform ''age'' (Some Desc)
        (new_LiteTable test_platform lenient_options))) = [JNumber 3, JNull, JNumber 0]"
  by (simp add: lenient_column_def) code_simp+

text \<open>
  C6 (as stated).  A column with the default comparator whose accessor answers 0 for a row
  that is \<open>undefined\<close>, over the rows Bob (3), Alice (\<open>null\<close>) and an \<open>undefined\<close> array
  element: \<open>Array.prototype.sort\<close> moves the \<open>undefined\<close> element to the end without
  asking the comparator, so the sorted cells are 3, \<open>null\<close>, 0 in both directions, and a
  null-valued row stands before a row with a value.
\<close>

theorem C6_undefined_row_counterexample:
  "sortFn lenient_column = None \<and>
   map (\<lambda>row. getCellValue row lenient_column)
     (getAllRows (sortBy test_platform ''age'' (Some Asc)
        (new_LiteTable test_platform lenient_options))) = [JNumber 3, JNull, JNumber 0] \<and>
   map (\<lambda>row. getCellValue row lenient_column)
     (getAllRows (sortBy test_platform ''age'' (Some Desc)
        (new_LiteTable test_platform lenient_options))) = [JNumber 3, JNull, JNumber 0] \<and>
   isNullish JNull \<and> \<not> isNullish (JNumber 0)"
  using lenient_table_sorted by (simp add: isNullish_def)

text \<open>
  C6 (amended).  The default comparator puts a \<open>null\<close> or \<open>undefined\<close> value after a value
  that is neither, whatever the direction (\<open>'asc'\<close>, \<open>'desc'\<close>, or none): it answers 1 with
  the null value on the left and -1 with it on the right.  Hence sorting rows by a sortable
  column that has a non-empty id and no custom comparator keeps every row and leaves no
  null-valued row before a row with a value, in either direction, provided the default
  comparator is consistent on the cells of the rows and no array element is itself
  \<open>undefined\<close> (or the column reads cells by its id, so that such an element is a
  null-valued row).
\<close>

theorem C6_nulls_sort_last:
  assumes "find (\<lambda>c. idC c = cid) (columns opts) = Some col"
    and "sortable col \<noteq> Some False" and "sortFn col = None" and "cid \<noteq> []"
    and "accessor col = None \<or> JUndefined \<notin> set rows"
    and "consistent_on
           (\<lambda>a b. compareValues P (getCellValue a col) (getCellValue b col) (Some d)) rows"
    and "out = sortData P opts rows \<lparr> columnId = Some cid, direction = Some d \<rparr>"
  shows "(isNullish a \<and> \<not> isNullish b \<longrightarrow>
            compareValues P a b dir = 1 \<and> compareValues P b a dir = - 1) \<and>
         length out = length rows \<and> set out = set rows \<and>
         (\<forall>i j. i < j \<and> j < length out \<and> isNullish (getCellValue (out ! i) col)
                  \<longrightarrow> isNullish (getCellValue (out ! j) col))"
proof -
  define f where
    "f = (\<lambda>a b. compareValues P (getCellValue a col) (getCellValue b col) (Some d))"
  define N where "N = (\<lambda>r. isNullish (getCellValue r col))"
  have out: "out = insertion_sort (SortCompare f) rows"
    unfolding assms(7) f_def using assms(1-4) by (rule sortData_default)
  have 1: "isNullish a \<and> \<not> isNullish b \<longrightarrow>
      compareValues P a b dir = 1 \<and> compareValues P b a dir = - 1"
    by (simp add: compareValues_null)
  have 2: "length out = length rows" by (simp add: out length_insertion_sort)
  have 3: "set out = set rows" by (simp add: out set_insertion_sort)
  have und: "N JUndefined" if "JUndefined \<in> set rows"
  proof -
    have "accessor col = None" using assms(5) that by blast
    then show ?thesis by (simp add: N_def getCellValue_def isObject_def isNullish_def)
  qed
  have "\<forall>x\<in>set rows. \<forall>y\<in>set rows.
      (N x \<and> \<not> N y \<longrightarrow> 0 < SortCompare f x y) \<and>
      (\<not> N x \<and> N y \<longrightarrow> SortCompare f x y \<le> 0)"
  proof (intro ballI)
    fix x y assume x: "x \<in> set rows" and y: "y \<in> set rows"
    show "(N x \<and> \<not> N y \<longrightarrow> 0 < SortCompare f x y) \<and>
          (\<not> N x \<and> N y \<longrightarrow> SortCompare f x y \<le> 0)"
    proof (cases "x = JUndefined")
      case xu: True
      then have nx: "N x" using und x by blast
      show ?thesis
      proof (cases "y = JUndefined")
        case True
        then have "N y" using und y by blast
        then show ?thesis using nx by blast
      next
        case False
        then have "SortCompare f x y = 1" using xu by (simp add: SortCompare_def)
        then show ?thesis using nx by simp
      qed
    next
      case xd: False
      show ?thesis
      proof (cases "y = JUndefined")
        case True
        then have ny: "N y" using und y by blast
        have "SortCompare f x y = - 1" using xd True by (simp add: SortCompare_def)
        then show ?thesis using ny by simp
      next
        case False
        then have "SortCompare f x y =
            compareValues P (getCellValue x col) (getCellValue y col) (Some d)"
          using xd by (simp add: SortCompare_def f_def)
        then show ?thesis by (simp add: N_def compareValues_null)
      qed
    qed
  qed
  then have "sorted_wrt (\<lambda>a b. N a \<longrightarrow> N b) out"
    unfolding out by (rule insertion_sort_nulls_last)
  then have 4: "\<forall>i j. i < j \<and> j < length out \<and> isNullish (getCellValue (out ! i) col)
                  \<longrightarrow> isNullish (getCellValue (out ! j) col)"
    by (auto simp add: sorted_wrt_iff_nth_less N_def)
  from 1 2 3 4 show ?thesis by (intro conjI)
qed

lemma people_defined:
  "accessor (plain_column ''age'' ''Age'') = None \<or> JUndefined \<notin> set people"
  by (simp add: plain_column_def)

lemma people_age_find:
  "find (\<lambda>c. idC c = ''age'') (columns (options (new_LiteTable test_platform people_options))) =
     Some (plain_column ''age'' ''Age'')"
  "sortable (plain_column ''age'' ''Age'') \<noteq> Some False"
  "sortFn (plain_column ''age'' ''Age'') = None"
  "''age'' \<noteq> []"
  by (simp_all add: new_LiteTable_fields people_options_def plain_column_def)

lemma people_consistent:
  "consistent_on
     (\<lambda>a b. compareValues test_platform (getCellValue a (plain_column ''age'' ''Age''))
              (getCellValue b (plain_column ''age'' ''Age'')) (Some Desc)) people"
  by code_simp

lemma people_sorted_desc:
  "sortData test_platform (options (new_LiteTable test_platform people_options)) people
     \<lparr> columnId = Some ''age'', direction = Some Desc \<rparr> =
   [person 4 ''Dora'' (JNumber 41), person 1 ''Bob'' (JNumber 30),
    person 3 ''Carol'' (JNumber 25), person 2 ''Alice'' JNull, person 5 ''Rob'' JNull]"
  "sortData test_platform (options (new_LiteTable test_platform people_options)) people
     \<lparr> columnId = Some ''age'', direction = Some Asc \<rparr> =
   [person 3 ''Carol'' (JNumber 25), person 1 ''Bob'' (JNumber 30),
    person 4 ''Dora'' (JNumber 41), person 2 ''Alice'' JNull, person 5 ''Rob'' JNull]"
  by code_simp+

lemma people_sorted_desc_cells:
  "isNullish (getCellValue
     (sortData test_platform (options (new_LiteTable test_platform people_options)) people
        \<lparr> columnId = Some ''age'', direction = Some Desc \<rparr> ! 3)
     (plain_column ''age'' ''Age''))"
  "length people = 5"
  unfolding people_sorted_desc(1)
  by (simp_all add: people_def person_def plain_column_def
      getCellValue_def isObject_def getProperty_def isNullish_def)

theorem C6_nulls_sort_last_witness:
  "compareValues test_platform JNull (JNumber 3) (Some Desc) = 1 \<and>
   compareValues test_platform (JNumber 3) JNull (Some Desc) = - 1 \<and>
   length (sortData test_platform (options (new_LiteTable test_platform people_options)) people
     \<lparr> columnId = Some ''age'', direction = Some Desc \<rparr>) = length people \<and>
   isNullish (getCellValue
     (sortData test_platform (options (new_LiteTable test_platform people_options)) people
        \<lparr> columnId = Some ''age'', direction = Some Desc \<rparr> ! 4)
     (plain_column ''age'' ''Age'')) \<and>
   sortData test_platform (options (new_LiteTable test_platform people_options)) people
     \<lparr> columnId = Some ''age'', direction = Some Desc \<rparr> =
   [person 4 ''Dora'' (JNumber 41), person 1 ''Bob'' (JNumber 30),
    person 3 ''Carol'' (JNumber 25), person 2 ''Alice'' JNull, person 5 ''Rob'' JNull]"
  (is "?A \<and> ?B \<and> ?L \<and> ?Q \<and> ?S")
proof -
  have n: "isNullish JNull \<and> \<not> isNullish (JNumber 3)" by (simp add: isNullish_def)
  note t = C6_nulls_sort_last [OF people_age_find people_defined people_consistent refl,
      where a = JNull and b = "JNumber 3" and dir = "Some Desc"]
  have ab: "?A \<and> ?B" using t [THEN conjunct1, THEN mp, OF n] .
  have a: ?A using ab by (rule conjunct1)
  have b: ?B using ab by (rule conjunct2)
  have l: ?L using t [THEN conjunct2, THEN conjunct1] .
  have "(3::nat) < 4 \<and>
      4 < length (sortData test_platform (options (new_LiteTable test_platform people_options))
                   people \<lparr> columnId = Some ''age'', direction = Some Desc \<rparr>) \<and>
      isNullish (getCellValue
        (sortData test_platform (options (new_LiteTable test_platform people_options)) people
           \<lparr> columnId = Some ''age'', direction = Some Desc \<rparr> ! 3)
        (plain_column ''age'' ''Age''))"
    using people_sorted_desc_cells by (simp add: l)
  then have q: ?Q
    using t [THEN conjunct2, THEN conjunct2, THEN conjunct2, THEN spec, THEN spec, THEN mp,
        of 3 4] by simp
  have s: ?S by (rule people_sorted_desc(1))
  from a b l q s show ?thesis by (intro conjI)
qed


section \<open>Virtual scroll: properties\<close>

lemma Array_slice_Nil: "Array_slice [] s e = []"
  by (simp add: Array_slice_def)

lemma Array_slice_single_hit: "1 \<le> e \<Longrightarrow> Array_slice [r] 0 e = [r]"
  by (simp add: Array_slice_def)

lemma Array_slice_single_miss: "1 \<le> s \<Longrightarrow> Array_slice [r] s e = []"
  by (simp add: Array_slice_def Let_def)

lemma getVisibleRows_handleScroll:
  "getVisibleRows (handleScroll st m) =
     getVirtualRows (vdata m) (calculateVirtualScroll (vdata m) (vconfig m) st)"
  by (simp add: getVisibleRows_def handleScroll_def)

lemma ceil_div_pos: "0 < a \<Longrightarrow> 0 < b \<Longrightarrow> 1 \<le> Math_ceil_div a b"
proof -
  assume a: "0 < a" and b: "0 < b"
  have "(- a) div b < 0" using a b by (simp add: pos_imp_zdiv_neg_iff)
  then show ?thesis by (simp add: Math_ceil_div_def)
qed

lemma calculateVirtualScroll_unaligned:
  "calculateVirtualScroll [''a'', ''b'', ''c'']
      \<lparr> rowHeight = 10, overscan = Some 0, containerHeight = 10, enabled = None \<rparr> 5
    = \<lparr> startIndexV = 0, endIndexV = 1, totalHeight = 30, scrollTop = 5,
        visibleRows = 1, offsetY = 0 \<rparr>"
  by (simp add: calculateVirtualScroll_def Math_floor_div_def Math_ceil_div_def)

lemma row_in_viewport_unaligned: "row_in_viewport 10 10 5 1"
  by (simp add: row_in_viewport_def)

lemma Array_slice_first: "Array_slice [''a'', ''b'', ''c''] 0 1 = [''a'']"
  by (simp add: Array_slice_def)

text \<open>
  C4.  The coverage property asks that with \<open>overscan = 0\<close> the range
  \<open>[startIndex, endIndex)\<close> contain every row that intersects the viewport.  The code computes \<open>endIndex\<close> as
  \<open>startIndex + ceil(containerHeight / rowHeight)\<close>, which can miss the last, partially
  visible row when \<open>scrollTop\<close> is not a multiple of \<open>rowHeight\<close>: three rows of
  height 10 in a container of height 10 scrolled to offset 5 (a valid offset, the largest
  being 30 - 10 = 20) show rows 0 and 1, yet the computed range is \<open>[0, 1)\<close> and only
  row 0 is returned.
\<close>

theorem C4_viewport_row_missed:
  "calculateVirtualScroll [''a'', ''b'', ''c'']
      \<lparr> rowHeight = 10, overscan = Some 0, containerHeight = 10, enabled = None \<rparr> 5
    = \<lparr> startIndexV = 0, endIndexV = 1, totalHeight = 30, scrollTop = 5,
        visibleRows = 1, offsetY = 0 \<rparr> \<and>
   (0::int) \<le> 5 \<and> (5::int) \<le> 30 - 10 \<and>
   row_in_viewport 10 10 5 1 \<and> \<not> ((0::int) \<le> 1 \<and> (1::int) < 1) \<and>
   getVirtualRows [''a'', ''b'', ''c'']
     (calculateVirtualScroll [''a'', ''b'', ''c'']
        \<lparr> rowHeight = 10, overscan = Some 0, containerHeight = 10, enabled = None \<rparr> 5)
    = [''a'']"
  by (simp add: calculateVirtualScroll_unaligned row_in_viewport_unaligned
      getVirtualRows_def Array_slice_first)

lemma calculateVirtualScroll_far:
  "calculateVirtualScroll [''a'']
      \<lparr> rowHeight = 48, overscan = Some 5, containerHeight = 600, enabled = Some True \<rparr> 1000
    = \<lparr> startIndexV = 15, endIndexV = 1, totalHeight = 48, scrollTop = 1000,
        visibleRows = 13, offsetY = 720 \<rparr>"
  by (simp add: calculateVirtualScroll_def Math_floor_div_def Math_ceil_div_def)

text \<open>
  C9 (as stated).  A one-row manager scrolled to offset 1000 (row height 48, default
  overscan 5) returns no row at all: \<open>startIndex\<close> is 15 and \<open>endIndex\<close> is clamped to 1.
\<close>

theorem C9_single_row_counterexample:
  "getVisibleRows (handleScroll 1000 (new_VirtualScrollManager [''a'']
      \<lparr> rowHeight = 48, overscan = None, containerHeight = 600, enabled = None \<rparr>)) \<noteq> [''a'']"
  by (simp add: getVisibleRows_handleScroll new_VirtualScrollManager_def Let_def
      calculateVirtualScroll_far getVirtualRows_def Array_slice_single_miss)

lemma getVisibleRows_updateData:
  "getVisibleRows (updateData xs m) =
     getVirtualRows xs (calculateVirtualScroll xs (vconfig m) (scrollTop (vstate m)))"
  by (simp add: getVisibleRows_def updateData_def)

lemma single_row_slice:
  assumes "0 < rowHeight cfg" and "0 < containerHeight cfg"
    and "overscan cfg = Some ov" and "0 \<le> ov"
  shows "getVirtualRows [r] (calculateVirtualScroll [r] cfg st) =
           (if st div rowHeight cfg \<le> ov then [r] else [])"
proof -
  define q where "q = st div rowHeight cfg - ov"
  define v where "v = Math_ceil_div (containerHeight cfg) (rowHeight cfg)"
  have v: "1 \<le> v"
    unfolding v_def using assms(1,2) by (simp add: ceil_div_pos)
  have e: "min 1 (max 0 q + v + ov * 2) = 1"
    using v assms(4) by simp
  have st: "startIndexV (calculateVirtualScroll [r] cfg st) = max 0 q"
    by (simp add: calculateVirtualScroll_def Let_def Math_floor_div_def assms(3) q_def)
  have en: "endIndexV (calculateVirtualScroll [r] cfg st) = min 1 (max 0 q + v + ov * 2)"
    by (simp add: calculateVirtualScroll_def Let_def Math_floor_div_def assms(3) q_def v_def)
  have vis: "getVirtualRows [r] (calculateVirtualScroll [r] cfg st) = Array_slice [r] (max 0 q) 1"
    by (simp only: getVirtualRows_def st en e)
  show ?thesis
  proof (cases "q \<le> 0")
    case True
    then have "max 0 q = 0" by simp
    moreover have "st div rowHeight cfg \<le> ov" using True by (simp add: q_def)
    ultimately show ?thesis by (simp add: vis Array_slice_single_hit)
  next
    case False
    then have "1 \<le> max 0 q" by simp
    moreover have "\<not> st div rowHeight cfg \<le> ov" using False by (simp add: q_def)
    ultimately show ?thesis by (simp add: vis Array_slice_single_miss)
  qed
qed

text \<open>
  C9 (amended).  The engine is pure arithmetic followed by a slice, so it has no failing
  branch.  With an empty backing array \<open>getVisibleRows()\<close> is empty at every scroll offset,
  whether the offset comes from \<open>handleScroll\<close> or is the one kept by \<open>updateData\<close>.  With
  a one-row backing array (positive row and container height, non-negative overscan) it
  returns exactly that row as long as \<open>floor(scrollTop / rowHeight) \<le> overscan\<close>, that is
  for every offset below \<open>(overscan + 1) * rowHeight\<close>, and the empty list beyond.
\<close>

theorem C9_degenerate_inputs:
  assumes "0 < rowHeight (vconfig m)" and "0 < containerHeight (vconfig m)"
    and "overscan (vconfig m) = Some ov" and "0 \<le> ov"
  shows "(vdata m = [] \<longrightarrow> getVisibleRows (handleScroll st m) = []) \<and>
         (vdata m = [r] \<longrightarrow> getVisibleRows (handleScroll st m) =
            (if st div rowHeight (vconfig m) \<le> ov then [r] else [])) \<and>
         getVisibleRows (updateData [] m) = [] \<and>
         getVisibleRows (updateData [r] m) =
            (if scrollTop (vstate m) div rowHeight (vconfig m) \<le> ov then [r] else [])"
proof (intro conjI impI)
  assume "vdata m = []"
  then show "getVisibleRows (handleScroll st m) = []"
    by (simp add: getVisibleRows_handleScroll getVirtualRows_def Array_slice_Nil)
next
  assume d: "vdata m = [r]"
  show "getVisibleRows (handleScroll st m) =
      (if st div rowHeight (vconfig m) \<le> ov then [r] else [])"
    unfolding getVisibleRows_handleScroll d using assms by (rule single_row_slice)
next
  show "getVisibleRows (updateData [] m) = []"
    by (simp add: getVisibleRows_updateData getVirtualRows_def Array_slice_Nil)
next
  show "getVisibleRows (updateData [r] m) =
      (if scrollTop (vstate m) div rowHeight (vconfig m) \<le> ov then [r] else [])"
    unfolding getVisibleRows_updateData using assms by (rule single_row_slice)
qed

theorem C9_degenerate_inputs_witness:
  "getVisibleRows (handleScroll 100 (new_VirtualScrollManager ([]::string list)
      \<lparr> rowHeight = 48, overscan = None, containerHeight = 600, enabled = None \<rparr>)) = [] \<and>
   getVisibleRows (handleScroll 100 (new_VirtualScrollManager [''a'']
      \<lparr> rowHeight = 48, overscan = None, containerHeight = 600, enabled = None \<rparr>)) = [''a''] \<and>
   getVisibleRows (handleScroll 1000 (new_VirtualScrollManager [''a'']
      \<lparr> rowHeight = 48, overscan = None, containerHeight = 600, enabled = None \<rparr>)) = []"
proof -
  let ?c = "\<lparr> rowHeight = 48, overscan = None, containerHeight = 600, enabled = None \<rparr>"
  let ?e = "new_VirtualScrollManager ([]::string list) ?c"
  let ?s = "new_VirtualScrollManager [''a''] ?c"
  have e: "0 < rowHeight (vconfig ?e)" "0 < containerHeight (vconfig ?e)"
    "overscan (vconfig ?e) = Some 5" "vdata ?e = []"
    by (simp_all add: new_VirtualScrollManager_def Let_def)
  have s: "0 < rowHeight (vconfig ?s)" "0 < containerHeight (vconfig ?s)"
    "overscan (vconfig ?s) = Some 5" "vdata ?s = [''a'']"
    by (simp_all add: new_VirtualScrollManager_def Let_def)
  have rh: "rowHeight (vconfig ?s) = 48"
    by (simp add: new_VirtualScrollManager_def Let_def)
  have five: "(0::int) \<le> 5" by simp
  have 1: "getVisibleRows (handleScroll 100 ?e) = []"
    using C9_degenerate_inputs [OF e(1) e(2) e(3) five, of 100 "''a''"] e(4) by simp
  have 2: "getVisibleRows (handleScroll 100 ?s) = [''a'']"
    using C9_degenerate_inputs [OF s(1) s(2) s(3) five, of 100 "''a''"] s(4) by (simp add: rh)
  have 3: "getVisibleRows (handleScroll 1000 ?s) = []"
    using C9_degenerate_inputs [OF s(1) s(2) s(3) five, of 1000 "''a''"] s(4) by (simp add: rh)
  from 1 2 3 show ?thesis by simp
qed


section \<open>Server-side fetch engine: properties\<close>

lemma length_abort: "length (abort c rs) = length rs"
  by (simp add: abort_def)

lemma abort_append_last:
  "abort (length rs) (rs @ [r]) = rs @ [r \<lparr> aborted := True \<rparr>]"
  by (simp add: abort_def)

lemma fetchData_fields:
  "requests (fetchData p m) =
     (case abortController m of Some c \<Rightarrow> abort c (requests m) | None \<Rightarrow> requests m)
       @ [\<lparr> aborted = False, settled = False \<rparr>]"
  "abortController (fetchData p m) = Some (length (requests m))"
  "sstate (fetchData p m) = (sstate m) \<lparr> loading := True, error := None, lastParams := Some p \<rparr>"
  "onError (fetchData p m) = onError m"
  "onErrorCalls (fetchData p m) = onErrorCalls m"
  by (simp_all add: fetchData_def Let_def length_abort split: option.split)

text \<open>After \<open>fetchData(A); fetchData(B)\<close>: the first request aborted, the second not.\<close>

lemma two_fetches_requests:
  "\<exists>rs. length rs = length (requests m) \<and>
     requests (fetchData B (fetchData A m)) =
       rs @ [\<lparr> aborted = True, settled = False \<rparr>, \<lparr> aborted = False, settled = False \<rparr>]"
proof -
  define rs where
    "rs = (case abortController m of Some c \<Rightarrow> abort c (requests m) | None \<Rightarrow> requests m)"
  have len: "length rs = length (requests m)"
    by (simp add: rs_def length_abort split: option.split)
  have r1: "requests (fetchData A m) = rs @ [\<lparr> aborted = False, settled = False \<rparr>]"
    by (simp add: fetchData_fields rs_def)
  have c1: "abortController (fetchData A m) = Some (length rs)"
    by (simp add: fetchData_fields len)
  have "requests (fetchData B (fetchData A m)) =
      abort (length rs) (rs @ [\<lparr> aborted = False, settled = False \<rparr>])
        @ [\<lparr> aborted = False, settled = False \<rparr>]"
    by (simp add: fetchData_fields(1) [of B] c1 r1)
  then have "requests (fetchData B (fetchData A m)) =
      rs @ [\<lparr> aborted = True, settled = False \<rparr>, \<lparr> aborted = False, settled = False \<rparr>]"
    by (simp add: abort_append_last)
  with len show ?thesis by blast
qed

lemma settle_aborted:
  assumes "rid < length (requests m)" and "\<not> settled (requests m ! rid)"
    and "aborted (requests m ! rid)"
  shows "sstate (settle rid result m) = sstate m"
    and "onErrorCalls (settle rid result m) = onErrorCalls m"
    and "onError (settle rid result m) = onError m"
    and "requests (settle rid result m) = (requests m)[rid := (requests m ! rid) \<lparr> settled := True \<rparr>]"
    and "abortController (settle rid result m) = None"
  using assms by (simp_all add: settle_def Let_def catch_block_def)

lemma catch_block_state:
  "sstate (catch_block err m) =
     (if err_name err = ''AbortError'' then sstate m
      else (sstate m) \<lparr> loading := False, error := Some err, dataS := [], totalRowsS := 0 \<rparr>)"
  "onErrorCalls (catch_block err m) =
     (if err_name err \<noteq> ''AbortError'' \<and> onError m then onErrorCalls m @ [err] else onErrorCalls m)"
  "requests (catch_block err m) = requests m"
  "onError (catch_block err m) = onError m"
  by (simp_all add: catch_block_def Let_def)

lemma settle_live:
  assumes "rid < length (requests m)" and "\<not> settled (requests m ! rid)"
    and "\<not> aborted (requests m ! rid)"
    and "sstate m = s \<lparr> loading := True, error := None, lastParams := Some p \<rparr>"
  shows "sstate (settle rid result m) = outcome_state s p result"
    and "onErrorCalls (settle rid result m) = onErrorCalls m @ outcome_errors (onError m) result"
    and "requests (settle rid result m) = (requests m)[rid := (requests m ! rid) \<lparr> settled := True \<rparr>]"
    and "onError (settle rid result m) = onError m"
proof -
  show "sstate (settle rid result m) = outcome_state s p result"
    using assms
    by (cases result) (simp_all add: settle_def Let_def catch_block_state outcome_state_def)
  show "onErrorCalls (settle rid result m) = onErrorCalls m @ outcome_errors (onError m) result"
    using assms
    by (cases result) (simp_all add: settle_def Let_def catch_block_state outcome_errors_def)
  show "requests (settle rid result m) = (requests m)[rid := (requests m ! rid) \<lparr> settled := True \<rparr>]"
    using assms
    by (cases result) (simp_all add: settle_def Let_def catch_block_state)
  show "onError (settle rid result m) = onError m"
    using assms
    by (cases result) (simp_all add: settle_def Let_def catch_block_state)
qed

text \<open>
  Two calls in a row on a manager none of whose earlier requests is still to settle in
  between: let \<open>fetchData(A)\<close> and then \<open>fetchData(B)\<close> be called, and let both network
  steps end, in either order and with whatever the network answers to each.  Then the
  observable state is the one that \<open>B\<close>'s answer alone determines, \<open>onError\<close> has been
  called for \<open>B\<close>'s failure only, and the end of \<open>A\<close>'s step by itself changes neither the
  state nor the calls made to \<open>onError\<close>.
\<close>

lemma adjacent_fetches_superseded:
  fixes m :: "('r, 'p) ServerSideManager"
  shows
  "sstate (run_events m [FetchData A, FetchData B,
       Settle (length (requests m)) ra, Settle (Suc (length (requests m))) rb])
     = outcome_state (sstate m) B rb \<and>
   onErrorCalls (run_events m [FetchData A, FetchData B,
       Settle (length (requests m)) ra, Settle (Suc (length (requests m))) rb])
     = onErrorCalls m @ outcome_errors (onError m) rb \<and>
   sstate (run_events m [FetchData A, FetchData B,
       Settle (Suc (length (requests m))) rb, Settle (length (requests m)) ra])
     = outcome_state (sstate m) B rb \<and>
   onErrorCalls (run_events m [FetchData A, FetchData B,
       Settle (Suc (length (requests m))) rb, Settle (length (requests m)) ra])
     = onErrorCalls m @ outcome_errors (onError m) rb \<and>
   sstate (run_events m [FetchData A, FetchData B, Settle (length (requests m)) ra])
     = sstate (run_events m [FetchData A, FetchData B]) \<and>
   onErrorCalls (run_events m [FetchData A, FetchData B, Settle (length (requests m)) ra])
     = onErrorCalls m"
proof -
  define n where "n = length (requests m)"
  define m2 where "m2 = fetchData B (fetchData A m)"
  obtain rs where len: "length rs = n"
    and rq: "requests m2 =
       rs @ [\<lparr> aborted = True, settled = False \<rparr>, \<lparr> aborted = False, settled = False \<rparr>]"
    using two_fetches_requests [of m B A] unfolding n_def m2_def by blast
  have st2: "sstate m2 = (sstate m) \<lparr> loading := True, error := None, lastParams := Some B \<rparr>"
    by (simp add: m2_def fetchData_fields)
  have oe2: "onError m2 = onError m" and oc2: "onErrorCalls m2 = onErrorCalls m"
    by (simp_all add: m2_def fetchData_fields)
  have a_lt: "n < length (requests m2)" and b_lt: "Suc n < length (requests m2)"
    by (simp_all add: rq len)
  have a_at: "requests m2 ! n = \<lparr> aborted = True, settled = False \<rparr>"
    by (simp add: rq len nth_append)
  have b_at: "requests m2 ! Suc n = \<lparr> aborted = False, settled = False \<rparr>"
    by (simp add: rq len nth_append)
  \<comment> \<open>\<open>A\<close>'s step ends first\<close>
  define ma where "ma = settle n ra m2"
  have ma: "sstate ma = sstate m2" "onErrorCalls ma = onErrorCalls m2" "onError ma = onError m2"
    "requests ma = (requests m2)[n := (requests m2 ! n) \<lparr> settled := True \<rparr>]"
    unfolding ma_def using a_lt a_at by (simp_all add: settle_aborted)
  have ma_b: "Suc n < length (requests ma)" "\<not> settled (requests ma ! Suc n)"
    "\<not> aborted (requests ma ! Suc n)"
    using b_lt b_at by (simp_all add: ma(4))
  have sa: "sstate ma = (sstate m) \<lparr> loading := True, error := None, lastParams := Some B \<rparr>"
    by (simp add: ma(1) st2)
  have ab1: "sstate (settle (Suc n) rb ma) = outcome_state (sstate m) B rb"
    using settle_live(1) [OF ma_b sa] .
  have ab2: "onErrorCalls (settle (Suc n) rb ma) = onErrorCalls m @ outcome_errors (onError m) rb"
    using settle_live(2) [OF ma_b sa] by (simp add: ma oc2 oe2)
  \<comment> \<open>\<open>B\<close>'s step ends first\<close>
  define mb where "mb = settle (Suc n) rb m2"
  have b_live: "Suc n < length (requests m2)" "\<not> settled (requests m2 ! Suc n)"
    "\<not> aborted (requests m2 ! Suc n)"
    using b_lt b_at by simp_all
  have mb: "sstate mb = outcome_state (sstate m) B rb"
    "onErrorCalls mb = onErrorCalls m @ outcome_errors (onError m) rb"
    "requests mb = (requests m2)[Suc n := (requests m2 ! Suc n) \<lparr> settled := True \<rparr>]"
    unfolding mb_def using settle_live [OF b_live st2] by (simp_all add: oc2 oe2)
  have mb_a: "n < length (requests mb)" "\<not> settled (requests mb ! n)" "aborted (requests mb ! n)"
    using a_lt a_at by (simp_all add: mb(3))
  have ba1: "sstate (settle n ra mb) = outcome_state (sstate m) B rb"
    using settle_aborted(1) [OF mb_a] by (simp add: mb)
  have ba2: "onErrorCalls (settle n ra mb) = onErrorCalls m @ outcome_errors (onError m) rb"
    using settle_aborted(2) [OF mb_a] by (simp add: mb)
  have run2: "run_events m [FetchData A, FetchData B] = m2"
    by (simp add: run_events_def m2_def)
  have runa: "run_events m [FetchData A, FetchData B, Settle n ra] = ma"
    by (simp add: run_events_def m2_def ma_def)
  have runab: "run_events m [FetchData A, FetchData B, Settle n ra, Settle (Suc n) rb]
      = settle (Suc n) rb ma"
    by (simp add: run_events_def m2_def ma_def)
  have runba: "run_events m [FetchData A, FetchData B, Settle (Suc n) rb, Settle n ra]
      = settle n ra mb"
    by (simp add: run_events_def m2_def mb_def)
  show ?thesis
    unfolding n_def [symmetric]
    by (simp only: run2 runa runab runba ab1 ab2 ba1 ba2 ma oc2 simp_thms)
qed

text \<open>
  C2.  The cancellation property asks that whenever \<open>fetchData(B)\<close> is issued before the
  network step of \<open>fetchData(A)\<close> has ended, the final state reflect \<open>B\<close>'s outcome only
  and \<open>onError\<close> stay silent about \<open>A\<close>.  Let an earlier call \<open>Z\<close> be superseded by \<open>A\<close>
  and let \<open>Z\<close>'s aborted step end before \<open>B\<close> is issued: its \<open>finally\<close> block clears the
  \<open>abortController\<close> field, which by then refers to \<open>A\<close>'s controller, so \<open>fetchData(B)\<close>
  aborts nothing and \<open>A\<close> (request 1) stays in flight beside \<open>B\<close> (request 2).  When
  \<open>A\<close> answers after \<open>B\<close>, the state ends with \<open>A\<close>'s rows under \<open>B\<close>'s parameters; when
  \<open>A\<close> fails after \<open>B\<close> succeeded, the state ends in \<open>A\<close>'s error and \<open>onError\<close> is
  called with it.
\<close>

theorem C2_superseded_fetch_committed:
  "active_requests (run_events (new_ServerSideManager True :: (string, string) ServerSideManager)
      [FetchData ''Z'', FetchData ''A'', Settle 0 (Response True 200 ''OK'' [''z''] 1),
       FetchData ''B'']) = [1, 2] \<and>
   sstate (run_events (new_ServerSideManager True :: (string, string) ServerSideManager)
      [FetchData ''Z'', FetchData ''A'', Settle 0 (Response True 200 ''OK'' [''z''] 1),
       FetchData ''B'', Settle 2 (Response True 200 ''OK'' [''b''] 1),
       Settle 1 (Response True 200 ''OK'' [''a''] 1)]) =
     \<lparr> loading = False, error = None, dataS = [''a''], totalRowsS = 1,
       lastParams = Some ''B'' \<rparr> \<and>
   sstate (run_events (new_ServerSideManager True :: (string, string) ServerSideManager)
      [FetchData ''Z'', FetchData ''A'', Settle 0 (Response True 200 ''OK'' [''z''] 1),
       FetchData ''B'', Settle 2 (Response True 200 ''OK'' [''b''] 1),
       Settle 1 (Rejected (JsError ''TypeError'' ''Failed to fetch''))]) =
     \<lparr> loading = False, error = Some (JsError ''TypeError'' ''Failed to fetch''),
       dataS = [], totalRowsS = 0, lastParams = Some ''B'' \<rparr> \<and>
   onErrorCalls (run_events (new_ServerSideManager True :: (string, string) ServerSideManager)
      [FetchData ''Z'', FetchData ''A'', Settle 0 (Response True 200 ''OK'' [''z''] 1),
       FetchData ''B'', Settle 2 (Response True 200 ''OK'' [''b''] 1),
       Settle 1 (Rejected (JsError ''TypeError'' ''Failed to fetch''))]) =
     [JsError ''TypeError'' ''Failed to fetch'']"
  by code_simp

text \<open>
  C3.  The specification asks that no two requests of one manager ever be in flight with
  neither cancelled.  \<open>fetchData\<close> does abort the controller the \<open>abortController\<close> field refers
  to, but the \<open>finally\<close> block of every call clears that field, also when the call that
  ends is one that has been superseded.  After \<open>fetchData(A); fetchData(B)\<close> the end of
  \<open>A\<close>'s (aborted) step erases the reference to \<open>B\<close>'s controller, so \<open>fetchData(C)\<close>
  finds nothing to abort: requests 1 (\<open>B\<close>) and 2 (\<open>C\<close>) are both in flight and
  uncancelled, \<open>cancel()\<close> reaches only \<open>C\<close>, and when \<open>B\<close> answers after \<open>C\<close> the state
  ends up holding \<open>B\<close>'s rows although \<open>C\<close> was the last call.
\<close>

theorem C3_two_uncancelled_requests:
  "active_requests (run_events (new_ServerSideManager True :: (string, string) ServerSideManager)
      [FetchData ''A'', FetchData ''B'']) = [1] \<and>
   active_requests (run_events (new_ServerSideManager True :: (string, string) ServerSideManager)
      [FetchData ''A'', FetchData ''B'', Settle 0 (Response True 200 ''OK'' [''a''] 1),
       FetchData ''C'']) = [1, 2] \<and>
   active_requests (run_events (new_ServerSideManager True :: (string, string) ServerSideManager)
      [FetchData ''A'', FetchData ''B'', Settle 0 (Response True 200 ''OK'' [''a''] 1),
       FetchData ''C'', Cancel]) = [1] \<and>
   dataS (sstate (run_events (new_ServerSideManager True :: (string, string) ServerSideManager)
      [FetchData ''A'', FetchData ''B'', Settle 0 (Response True 200 ''OK'' [''a''] 1),
       FetchData ''C'', Settle 2 (Response True 200 ''OK'' [''c''] 1),
       Settle 1 (Response True 200 ''OK'' [''b''] 1)])) = [''b'']"
  by code_simp


end
